theory Spec2Isabelle
  imports Complex_Main
begin

section \<open>Data model\<close>

text \<open>
  The run record and its stage records, as declared by \<^verbatim>\<open>ArticleRunSchema\<close> and
  \<^verbatim>\<open>GenerationStageSchema\<close> in \<^verbatim>\<open>schemas/article.schema.ts\<close>. Timestamps are the
  reading of the clock in milliseconds (the source stores its ISO rendering). Optional
  fields are options. The field \<^verbatim>\<open>data\<close> of a stage is never written by the orchestrator
  and is left out.
\<close>

datatype exn =
  NotFoundException string
| BadRequestException string
| ZodError string
| Error string

fun message :: "exn \<Rightarrow> string" where
  "message (NotFoundException m) = m"
| "message (BadRequestException m) = m"
| "message (ZodError m) = m"
| "message (Error m) = m"

datatype stage_name = Research | Outline | Draft | Refine | Export

datatype stage_status = Pending | In_progress | Completed | Failed | Cancelled

datatype run_status = Run_pending | Run_in_progress | Run_completed | Run_failed

record GenerationStage =
  stage :: stage_name
  status :: stage_status
  started_at :: "nat option"
  completed_at :: "nat option"
  error :: "string option"

record ArticleRun =
  run_id :: string
  topic_id :: string
  topic_version :: string
  run_status :: run_status
  stages :: "GenerationStage list"
  article_id :: "string option"
  run_error :: "string option"
  created_at :: nat
  updated_at :: "nat option"
  run_completed_at :: "nat option"


text \<open>
  The article and the research result of \<^verbatim>\<open>schemas/article.schema.ts\<close>. The orchestrator
  threads outline, content, SEO metadata and citations between the stages without looking
  inside them; they are strings here.
\<close>

datatype article_status = Art_draft | Art_review | Art_published | Art_archived

datatype format = Md | Html | Json

record ResearchResult =
  query :: string
  sources :: "string list"
  summary :: string
  key_points :: "string list"
  retrieved_at :: nat

record article_metadata =
  models_used :: "string \<times> string \<times> string"
  generation_time_ms :: nat
  api_calls :: nat
  tokens_used :: "nat option"

record Article =
  art_id :: string
  art_topic_id :: string
  art_topic_version :: string
  art_status :: article_status
  outline :: string
  content :: string
  seo :: string
  citations :: "string list"
  metadata :: "article_metadata option"
  art_created_at :: nat
  art_updated_at :: "nat option"

text \<open>
  The validated topic configuration (\<^verbatim>\<open>TopicConfig\<close>): the fields the orchestrator and
  the loader read.
\<close>

record TopicConfig =
  cfg_id :: string
  cfg_version :: string
  title :: string
  audience :: string
  length_range :: string
  models :: "string \<times> string \<times> string"
  research_enabled :: bool
  seo_keywords :: "string list"
  formats :: "format list"

record GenerationOptions =
  skipResearch :: bool
  dryRun :: bool
  saveOutput :: "bool option"
  stageTimeout :: "nat option"

section \<open>Run record store\<close>

text \<open>
  The world the orchestrator acts on: the stored run records and articles, the clock, and
  a journal of what happened in order (every save of a run record, every call of a stage
  function, every call of a collaborator), so that the order of writes and calls can be
  read.
\<close>

datatype event =
  SaveArticleRun ArticleRun
| StageFn string stage_name
| ConductResearch TopicConfig
| GenerateOutline TopicConfig "ResearchResult option"
| GenerateDraft TopicConfig string "ResearchResult option"
| RefineAndOptimize TopicConfig string "string list"
| SaveArticle Article
| ExportArticle Article format
| SaveExport string format string

record world =
  runs :: "string \<rightharpoonup> ArticleRun"
  articles :: "string \<rightharpoonup> Article"
  now :: nat
  journal :: "event list"

definition log :: "event \<Rightarrow> world \<Rightarrow> world" where
  "log e w = w\<lparr>journal := journal w @ [e]\<rparr>"

text \<open>
  Modelled from the spec: the storage service used by the article orchestrator
  (\<^verbatim>\<open>saveArticleRun\<close>, \<^verbatim>\<open>getArticleRun\<close>, \<^verbatim>\<open>saveArticle\<close>, \<^verbatim>\<open>getArticle\<close>) is not
  among the sources. The spec gives its contract: \<^verbatim>\<open>save\<close> overwrites the record kept
  under the id, \<^verbatim>\<open>get\<close> returns the latest saved record or fails with NotFound. The
  store is a map from ids to records.
\<close>

definition saveArticleRun :: "ArticleRun \<Rightarrow> world \<Rightarrow> world" where
  "saveArticleRun r w = log (SaveArticleRun r) (w\<lparr>runs := (runs w)(run_id r \<mapsto> r)\<rparr>)"

definition getArticleRun :: "string \<Rightarrow> world \<Rightarrow> exn + ArticleRun" where
  "getArticleRun runId w =
     (case runs w runId of
        None \<Rightarrow> Inl (NotFoundException (''Article run not found: '' @ runId))
      | Some r \<Rightarrow> Inr r)"

definition saveArticle :: "Article \<Rightarrow> world \<Rightarrow> world" where
  "saveArticle a w = log (SaveArticle a) (w\<lparr>articles := (articles w)(art_id a \<mapsto> a)\<rparr>)"

definition getArticle :: "string \<Rightarrow> world \<Rightarrow> exn + Article" where
  "getArticle articleId w =
     (case articles w articleId of
        None \<Rightarrow> Inl (NotFoundException (''Article not found: '' @ articleId))
      | Some a \<Rightarrow> Inr a)"

section \<open>Status projection\<close>

text \<open>
  \<^verbatim>\<open>Math.round\<close>: the nearest integer, a half rounded towards plus infinity. The
  quotient is taken in exact rational arithmetic; the doubles of the source agree with it
  except possibly where \<^verbatim>\<open>100 * completed / total\<close> is an exact half.
\<close>

definition js_round :: "rat \<Rightarrow> int" where
  "js_round x = \<lfloor>x + 1 / 2\<rfloor>"

record run_status_view =
  view_runId :: string
  view_status :: run_status
  currentStage :: "stage_name option"
  progress :: int

text \<open>The body of \<^verbatim>\<open>getArticleRunStatus\<close> in \<^verbatim>\<open>app.controller.ts\<close>, after the read.\<close>

definition project_status :: "ArticleRun \<Rightarrow> run_status_view" where
  "project_status run =
     (let completedStages = length (filter (\<lambda>s. status s = Completed) (stages run));
          totalStages = length (stages run);
          progress = (if totalStages > 0
                      then (of_nat completedStages / of_nat totalStages) * 100
                      else (0::rat));
          current = map_option stage (find (\<lambda>s. status s = In_progress) (stages run))
      in \<lparr>view_runId = run_id run, view_status = run_status run,
          currentStage = current, progress = js_round progress\<rparr>)"


definition getArticleRunStatus :: "string \<Rightarrow> world \<Rightarrow> exn + run_status_view" where
  "getArticleRunStatus runId w =
     (case getArticleRun runId w of Inl e \<Rightarrow> Inl e | Inr run \<Rightarrow> Inr (project_status run))"

text \<open>The two counts the projection divides: completed stages and all stages.\<close>

definition stage_counts :: "ArticleRun \<Rightarrow> int \<times> int" where
  "stage_counts run = (int (length (filter (\<lambda>s. status s = Completed) (stages run))),
                       int (length (stages run)))"

section \<open>Stage execution\<close>

text \<open>
  A stage collaborator is opaque to the orchestrator: it settles after some time with a
  result or an exception, or never settles. A computation of the orchestrator takes the
  world and returns a result or an exception together with the world it leaves;
  \<open>andThen\<close> is \<^verbatim>\<open>await\<close> followed by the rest of the function.
\<close>

datatype 'a behaviour = Settles nat "exn + 'a" | Never

type_synonym 'a task = "world \<Rightarrow> (exn + 'a) \<times> world"

definition ret :: "'a \<Rightarrow> 'a task" where
  "ret v w = (Inr v, w)"

definition andThen :: "'a task \<Rightarrow> ('a \<Rightarrow> 'b task) \<Rightarrow> 'b task" where
  "andThen m f w = (case m w of (Inl e, w') \<Rightarrow> (Inl e, w') | (Inr v, w') \<Rightarrow> f v w')"

text \<open>
  \<^verbatim>\<open>configService.get('STAGE_TIMEOUT_MS', 300000)\<close>: the configured number of
  milliseconds, or the default when none is configured.
\<close>

record config =
  STAGE_TIMEOUT_MS :: "nat option"

definition stage_timeout :: "config \<Rightarrow> nat" where
  "stage_timeout env = (case STAGE_TIMEOUT_MS env of None \<Rightarrow> 300000 | Some t \<Rightarrow> t)"

text \<open>
  The delay \<^verbatim>\<open>setTimeout\<close> gives a timer: the delay it is passed when that lies between
  1 and \<^verbatim>\<open>2^31 - 1\<close> milliseconds, and 1 millisecond otherwise.
\<close>

definition setTimeout_delay :: "nat \<Rightarrow> nat" where
  "setTimeout_delay after = (if 1 \<le> after \<and> after \<le> 2147483647 then after else 1)"

text \<open>The delay of the timer that a stage function is raced against.\<close>

abbreviation timer :: "config \<Rightarrow> nat" where
  "timer env \<equiv> setTimeout_delay (stage_timeout env)"

fun stage_label :: "stage_name \<Rightarrow> string" where
  "stage_label Research = ''research''"
| "stage_label Outline = ''outline''"
| "stage_label Draft = ''draft''"
| "stage_label Refine = ''refine''"
| "stage_label Export = ''export''"

definition timeout_error :: "stage_name \<Rightarrow> exn" where
  "timeout_error n = Error (''Stage '' @ stage_label n @ '' timed out'')"

text \<open>
  \<^verbatim>\<open>Promise.race\<close> of the stage function against the timer: the time that passes and
  what the race settles with. The stage function is started before the timer, so a stage
  that settles at the very instant of the timeout wins.
\<close>

fun race :: "nat \<Rightarrow> stage_name \<Rightarrow> 'a behaviour \<Rightarrow> nat \<times> (exn + 'a)" where
  "race t n Never = (t, Inl (timeout_error n))"
| "race t n (Settles d r) = (if d \<le> t then (d, r) else (t, Inl (timeout_error n)))"

text \<open>\<^verbatim>\<open>run.stages.find(s => s.stage === stageName)\<close> and the update of what it finds.\<close>

fun update_first :: "('a \<Rightarrow> bool) \<Rightarrow> ('a \<Rightarrow> 'a) \<Rightarrow> 'a list \<Rightarrow> 'a list" where
  "update_first P f [] = []"
| "update_first P f (x # xs) = (if P x then f x # xs else x # update_first P f xs)"

definition set_stage :: "nat \<Rightarrow> stage_status \<Rightarrow> string option \<Rightarrow> GenerationStage \<Rightarrow> GenerationStage" where
  "set_stage t st err s =
     (let s1 = s\<lparr>status := st, error := err\<rparr>
      in if st = In_progress then s1\<lparr>started_at := Some t\<rparr>
         else if st = Completed \<or> st = Failed then s1\<lparr>completed_at := Some t\<rparr>
         else s1)"

definition updateStageStatus ::
  "string \<Rightarrow> stage_name \<Rightarrow> stage_status \<Rightarrow> string option \<Rightarrow> world \<Rightarrow> exn + world" where
  "updateStageStatus runId stageName st err w =
     (case getArticleRun runId w of
        Inl e \<Rightarrow> Inl e
      | Inr run \<Rightarrow>
          Inr (saveArticleRun
                 (run\<lparr>stages := update_first (\<lambda>s. stage s = stageName)
                                   (set_stage (now w) st err) (stages run),
                      updated_at := Some (now w)\<rparr>) w))"

definition updateRunStatus ::
  "string \<Rightarrow> run_status \<Rightarrow> string option \<Rightarrow> world \<Rightarrow> exn + world" where
  "updateRunStatus runId st err w =
     (case getArticleRun runId w of
        Inl e \<Rightarrow> Inl e
      | Inr run \<Rightarrow>
          (let run1 = run\<lparr>run_status := st, run_error := err, updated_at := Some (now w)\<rparr>;
               run2 = (if st = Run_completed \<or> st = Run_failed
                       then run1\<lparr>run_completed_at := Some (now w)\<rparr> else run1)
           in Inr (saveArticleRun run2 w)))"

text \<open>
  \<^verbatim>\<open>executeStage\<close>. The stage function is given the world at the moment it is called and
  returns how it will settle and the world with its own effects; its call is written to
  the journal. The catch block marks the stage failed and rethrows; an exception of the
  store inside the catch block replaces the one being handled.
\<close>

definition stage_failed :: "string \<Rightarrow> stage_name \<Rightarrow> exn \<Rightarrow> world \<Rightarrow> (exn + 'a) \<times> world" where
  "stage_failed runId stageName e w =
     (case updateStageStatus runId stageName Failed (Some (message e)) w of
        Inl e2 \<Rightarrow> (Inl e2, w)
      | Inr w' \<Rightarrow> (Inl e, w'))"

definition executeStage ::
  "config \<Rightarrow> string \<Rightarrow> stage_name \<Rightarrow> (world \<Rightarrow> 'a behaviour \<times> world) \<Rightarrow> 'a task" where
  "executeStage env runId stageName stageFunction w =
     (let timeout = stage_timeout env
      in case updateStageStatus runId stageName In_progress None w of
           Inl e \<Rightarrow> (Inl e, w)
         | Inr w1 \<Rightarrow>
             (let (b, w2) = stageFunction (log (StageFn runId stageName) w1);
                  (elapsed, result) = race (setTimeout_delay timeout) stageName b;
                  w3 = w2\<lparr>now := now w2 + elapsed\<rparr>
              in case result of
                   Inr v \<Rightarrow>
                     (case updateStageStatus runId stageName Completed None w3 of
                        Inr w4 \<Rightarrow> (Inr v, w4)
                      | Inl e \<Rightarrow> stage_failed runId stageName e w3)
                 | Inl e \<Rightarrow> stage_failed runId stageName e w3))"


section \<open>Topic loader\<close>

text \<open>
  What \<^verbatim>\<open>JSON.parse\<close> hands to the schema: every field may be absent. The schema of
  \<^verbatim>\<open>schemas/topic-config.schema.ts\<close> is applied to the fields the orchestrator and the
  loader read; \<^verbatim>\<open>research.enabled\<close> defaults to true inside a required \<^verbatim>\<open>research\<close>
  object. The other fields of the schema (status, tone, reading level, language, tags,
  priority and the bounds inside the research, outline and seo objects) are not
  represented: a document whose only defect lies in one of them is outside this model.
\<close>

record raw_topic =
  raw_id :: "string option"
  raw_version :: "string option"
  raw_title :: "string option"
  raw_audience :: "string option"
  raw_length :: "string option"
  raw_models :: "(string \<times> string \<times> string) option"
  raw_research :: "bool option option"
  raw_keywords :: "string list option"
  raw_formats :: "string list option"

definition is_digit :: "char \<Rightarrow> bool" where
  "is_digit c = (c \<in> set ''0123456789'')"

definition digits1 :: "string \<Rightarrow> (string \<times> string) option" where
  "digits1 s = (if takeWhile is_digit s = [] then None
                else Some (takeWhile is_digit s, dropWhile is_digit s))"

text \<open>The regular expression \<^verbatim>\<open>^\d+\.\d+\.\d+$\<close>, read from left to right.\<close>

definition matches_semver :: "string \<Rightarrow> bool" where
  "matches_semver v =
     (case digits1 v of
        None \<Rightarrow> False
      | Some (a, r1) \<Rightarrow>
          (case r1 of
             [] \<Rightarrow> False
           | c1 # r2 \<Rightarrow>
               c1 = CHR ''.'' \<and>
               (case digits1 r2 of
                  None \<Rightarrow> False
                | Some (b, r3) \<Rightarrow>
                    (case r3 of
                       [] \<Rightarrow> False
                     | c2 # r4 \<Rightarrow>
                         c2 = CHR ''.'' \<and>
                         (case digits1 r4 of
                            None \<Rightarrow> False
                          | Some (c, r5) \<Rightarrow> r5 = [])))))"

text \<open>The regular expression \<^verbatim>\<open>^\d+-\d+$\<close> of the \<^verbatim>\<open>length\<close> field.\<close>

definition matches_length :: "string \<Rightarrow> bool" where
  "matches_length v =
     (case digits1 v of
        None \<Rightarrow> False
      | Some (a, r1) \<Rightarrow>
          (case r1 of
             [] \<Rightarrow> False
           | c1 # r2 \<Rightarrow>
               c1 = CHR ''-'' \<and>
               (case digits1 r2 of None \<Rightarrow> False | Some (b, r3) \<Rightarrow> r3 = [])))"

definition parse_format :: "string \<Rightarrow> format option" where
  "parse_format s =
     (if s = ''md'' then Some Md
      else if s = ''html'' then Some Html
      else if s = ''json'' then Some Json
      else None)"

fun parse_formats :: "string list \<Rightarrow> format list option" where
  "parse_formats [] = Some []"
| "parse_formats (s # ss) =
     (case parse_format s of
        None \<Rightarrow> None
      | Some f \<Rightarrow> (case parse_formats ss of None \<Rightarrow> None | Some fs \<Rightarrow> Some (f # fs)))"

definition validateTopicConfig :: "raw_topic \<Rightarrow> exn + TopicConfig" where
  "validateTopicConfig d =
     (case (raw_id d, raw_version d, raw_title d, raw_audience d, raw_length d) of
        (Some i, Some v, Some t, Some a, Some l) \<Rightarrow>
          (case (raw_models d, raw_research d, raw_keywords d, raw_formats d) of
             (Some (mo, md, mr), Some en, Some ks, Some fs) \<Rightarrow>
               (case parse_formats fs of
                  Some fmts \<Rightarrow>
                    if i \<noteq> [] \<and> matches_semver v \<and> t \<noteq> [] \<and> a \<noteq> [] \<and> matches_length l
                       \<and> mo \<noteq> [] \<and> md \<noteq> [] \<and> mr \<noteq> [] \<and> ks \<noteq> [] \<and> fmts \<noteq> []
                    then Inr \<lparr>cfg_id = i, cfg_version = v, title = t, audience = a,
                              length_range = l, models = (mo, md, mr),
                              research_enabled = (case en of None \<Rightarrow> True | Some b \<Rightarrow> b),
                              seo_keywords = ks, formats = fmts\<rparr>
                    else Inl (ZodError ''invalid topic configuration'')
                | None \<Rightarrow> Inl (ZodError ''invalid output format''))
           | _ \<Rightarrow> Inl (ZodError ''required field missing''))
      | _ \<Rightarrow> Inl (ZodError ''required field missing''))"

text \<open>
  The two sources of the loader. A local file is absent (\<^verbatim>\<open>ENOENT\<close>), unreadable or not
  JSON, or parsed. The remote API answers 404, fails otherwise, or returns a body with
  \<^verbatim>\<open>success\<close>, \<^verbatim>\<open>data\<close> and \<^verbatim>\<open>error\<close>.
\<close>

datatype topic_file = Unreadable string | Parsed raw_topic

datatype api_reply = Http404 | Http_failure string | Body bool "raw_topic option" "string option"

datatype topic_source = Local | Api

record loader =
  source :: topic_source
  apiUrl :: "string option"
  files :: "string \<rightharpoonup> topic_file"
  api :: "string \<Rightarrow> string \<Rightarrow> api_reply"

definition loadTopicFromFile :: "loader \<Rightarrow> string \<Rightarrow> string \<Rightarrow> exn + raw_topic" where
  "loadTopicFromFile ld topicId version =
     (case files ld topicId of
        None \<Rightarrow> Inl (NotFoundException (''Topic file not found: '' @ topicId))
      | Some (Unreadable m) \<Rightarrow> Inl (BadRequestException (''Failed to read topic file: '' @ m))
      | Some (Parsed d) \<Rightarrow> Inr d)"

definition loadTopicFromAPI :: "loader \<Rightarrow> string \<Rightarrow> string \<Rightarrow> exn + raw_topic" where
  "loadTopicFromAPI ld topicId version =
     (case apiUrl ld of
        None \<Rightarrow> Inl (BadRequestException ''API URL not configured'')
      | Some url \<Rightarrow>
          (case api ld topicId version of
             Http404 \<Rightarrow> Inl (NotFoundException (''Topic not found: '' @ topicId @ ''@'' @ version))
           | Http_failure m \<Rightarrow> Inl (BadRequestException (''API request failed: '' @ m))
           | Body success dat err \<Rightarrow>
               (case dat of
                  None \<Rightarrow>
                    Inl (BadRequestException
                           (case err of None \<Rightarrow> ''Failed to load topic from API'' | Some m \<Rightarrow> m))
                | Some d \<Rightarrow>
                    (case validateTopicConfig d of
                       Inl z \<Rightarrow> Inl z
                     | Inr t \<Rightarrow>
                         if \<not> success
                         then Inl (BadRequestException
                                (case err of None \<Rightarrow> ''Failed to load topic from API'' | Some m \<Rightarrow> m))
                         else Inr d))))"

definition is_http_exception :: "exn \<Rightarrow> bool" where
  "is_http_exception e =
     (case e of NotFoundException m \<Rightarrow> True | BadRequestException m \<Rightarrow> True | _ \<Rightarrow> False)"

definition rethrow :: "exn \<Rightarrow> exn" where
  "rethrow e = (if is_http_exception e then e
                else BadRequestException (''Invalid topic configuration: '' @ message e))"

text \<open>The first statement of the \<^verbatim>\<open>try\<close> block of \<^verbatim>\<open>loadTopic\<close>.\<close>

definition fetch_topic_data :: "loader \<Rightarrow> string \<Rightarrow> string \<Rightarrow> exn + raw_topic" where
  "fetch_topic_data ld topicId version =
     (if source ld = Local then loadTopicFromFile ld topicId version
      else loadTopicFromAPI ld topicId version)"

definition loadTopic :: "loader \<Rightarrow> string \<Rightarrow> string \<Rightarrow> exn + TopicConfig" where
  "loadTopic ld topicId version =
     (if version = ''latest''
      then Inl (BadRequestException
                  ''Version \"latest\" is not allowed. Please specify an exact version.'')
      else
        (case fetch_topic_data ld topicId version of
           Inl e \<Rightarrow> Inl (rethrow e)
         | Inr topicData \<Rightarrow>
             (case validateTopicConfig topicData of
                Inl e \<Rightarrow> Inl (rethrow e)
              | Inr validatedTopic \<Rightarrow>
                  if cfg_version validatedTopic \<noteq> version
                  then Inl (rethrow (BadRequestException
                         (''Version mismatch: requested '' @ version @ '', got ''
                          @ cfg_version validatedTopic)))
                  else Inr validatedTopic)))"


section \<open>Orchestrator\<close>

text \<open>
  The stage collaborators (research, outline, draft and refine agents, the exporter): for
  each call, how it settles.
\<close>

record collaborators =
  conductResearch :: "TopicConfig \<Rightarrow> ResearchResult behaviour"
  generateOutline :: "TopicConfig \<Rightarrow> ResearchResult option \<Rightarrow> string behaviour"
  generateDraft :: "TopicConfig \<Rightarrow> string \<Rightarrow> ResearchResult option \<Rightarrow> string behaviour"
  refineAndOptimize :: "TopicConfig \<Rightarrow> string \<Rightarrow> string list \<Rightarrow> (string \<times> string) behaviour"
  exportArticle :: "Article \<Rightarrow> format \<Rightarrow> string behaviour"

text \<open>
  The loop over the output formats inside the export stage function: each format is
  exported and the export saved, one after the other; the first failure ends the loop.
  The effects of a stage function are written to the journal when it is called: the
  source does not interrupt a stage function whose timer fired first.
\<close>

fun export_all ::
  "(Article \<Rightarrow> format \<Rightarrow> string behaviour) \<Rightarrow> Article \<Rightarrow> format list \<Rightarrow> world
     \<Rightarrow> string behaviour \<times> world" where
  "export_all ex a [] w = (Settles 0 (Inr (art_id a)), w)"
| "export_all ex a (f # fs) w =
     (let w1 = log (ExportArticle a f) w
      in case ex a f of
           Never \<Rightarrow> (Never, w1)
         | Settles d (Inl e) \<Rightarrow> (Settles d (Inl e), w1)
         | Settles d (Inr exported) \<Rightarrow>
             (case export_all ex a fs (log (SaveExport (art_id a) f exported) w1) of
                (Never, w2) \<Rightarrow> (Never, w2)
              | (Settles d' r, w2) \<Rightarrow> (Settles (d + d') r, w2)))"

definition research_fn :: "collaborators \<Rightarrow> TopicConfig \<Rightarrow> world \<Rightarrow> ResearchResult behaviour \<times> world" where
  "research_fn co topic w = (conductResearch co topic, log (ConductResearch topic) w)"

definition outline_fn ::
  "collaborators \<Rightarrow> TopicConfig \<Rightarrow> ResearchResult option \<Rightarrow> world \<Rightarrow> string behaviour \<times> world" where
  "outline_fn co topic researchResult w =
     (generateOutline co topic researchResult, log (GenerateOutline topic researchResult) w)"

definition draft_fn ::
  "collaborators \<Rightarrow> TopicConfig \<Rightarrow> string \<Rightarrow> ResearchResult option \<Rightarrow> world
     \<Rightarrow> string behaviour \<times> world" where
  "draft_fn co topic ol researchResult w =
     (generateDraft co topic ol researchResult, log (GenerateDraft topic ol researchResult) w)"

definition refine_fn ::
  "collaborators \<Rightarrow> TopicConfig \<Rightarrow> string \<Rightarrow> string list \<Rightarrow> world
     \<Rightarrow> (string \<times> string) behaviour \<times> world" where
  "refine_fn co topic ct cits w =
     (refineAndOptimize co topic ct cits, log (RefineAndOptimize topic ct cits) w)"

text \<open>The export stage function of \<^verbatim>\<open>executeGeneration\<close>.\<close>

definition export_fn ::
  "collaborators \<Rightarrow> TopicConfig \<Rightarrow> GenerationOptions \<Rightarrow> nat \<Rightarrow> Article \<Rightarrow> world
     \<Rightarrow> string behaviour \<times> world" where
  "export_fn co topic options startTime article w =
     (let completeArticle =
            article\<lparr>art_status := Art_published,
                    metadata := Some \<lparr>models_used = models topic,
                                      generation_time_ms = now w - startTime,
                                      api_calls = 0, tokens_used = Some 0\<rparr>,
                    art_updated_at := Some (now w)\<rparr>;
          w1 = saveArticle completeArticle w
      in if \<not> dryRun options \<and> (case saveOutput options of None \<Rightarrow> True | Some b \<Rightarrow> b)
         then export_all (exportArticle co) completeArticle (formats topic) w1
         else (Settles 0 (Inr (art_id completeArticle)), w1))"

text \<open>
  The body of the \<^verbatim>\<open>try\<close> block of \<^verbatim>\<open>executeGeneration\<close>, in two parts: the
  research stage, and the stages from the outline on, which take the research result.
  The partial article of the source is the local variables: its citations, then outline,
  content and SEO metadata as the stages deliver them; the export stage assembles the
  article from them.
\<close>

definition generation_tail ::
  "config \<Rightarrow> collaborators \<Rightarrow> string \<Rightarrow> string \<Rightarrow> TopicConfig \<Rightarrow> GenerationOptions \<Rightarrow> nat
     \<Rightarrow> ResearchResult option \<Rightarrow> unit task" where
  "generation_tail env co articleId runId topic options startTime researchResult =
     (let cits = (case researchResult of None \<Rightarrow> [] | Some r \<Rightarrow> sources r) in
      andThen (executeStage env runId Outline (outline_fn co topic researchResult))
        (\<lambda>ol.
           andThen (executeStage env runId Draft (draft_fn co topic ol researchResult))
             (\<lambda>ct.
                andThen (executeStage env runId Refine (refine_fn co topic ct cits))
                  (\<lambda>(refinedContent, seoMetadata).
                     andThen
                       (executeStage env runId Export
                          (export_fn co topic options startTime
                             \<lparr>art_id = articleId, art_topic_id = cfg_id topic,
                              art_topic_version = cfg_version topic, art_status = Art_draft,
                              outline = ol, content = refinedContent, seo = seoMetadata,
                              citations = cits, metadata = None,
                              art_created_at = startTime, art_updated_at = None\<rparr>))
                       (\<lambda>exported w.
                          (case updateRunStatus runId Run_completed None w of
                             Inl e \<Rightarrow> (Inl e, w)
                           | Inr w' \<Rightarrow> (Inr (), w')))))))"

definition generation_body ::
  "config \<Rightarrow> collaborators \<Rightarrow> string \<Rightarrow> string \<Rightarrow> TopicConfig \<Rightarrow> GenerationOptions \<Rightarrow> nat
     \<Rightarrow> unit task" where
  "generation_body env co articleId runId topic options startTime =
     andThen
       (if \<not> skipResearch options \<and> research_enabled topic
        then andThen (executeStage env runId Research (research_fn co topic))
                     (\<lambda>r. ret (Some r))
        else ret None)
       (generation_tail env co articleId runId topic options startTime)"

text \<open>How a promise settles.\<close>

datatype settled = Fulfilled | Rejected exn

text \<open>
  The \<^verbatim>\<open>catch\<close> block shared by \<^verbatim>\<open>executeGeneration\<close> and \<^verbatim>\<open>executeRegeneration\<close>:
  the run is marked failed with the message, and the exception is thrown again.
\<close>

definition run_catch :: "string \<Rightarrow> (exn + unit) \<times> world \<Rightarrow> settled \<times> world" where
  "run_catch runId out =
     (case out of
        (Inr u, w) \<Rightarrow> (Fulfilled, w)
      | (Inl e, w) \<Rightarrow>
          (case updateRunStatus runId Run_failed (Some (message e)) w of
             Inl e2 \<Rightarrow> (Rejected e2, w)
           | Inr w' \<Rightarrow> (Rejected e, w')))"

definition executeGeneration ::
  "config \<Rightarrow> collaborators \<Rightarrow> string \<Rightarrow> string \<Rightarrow> TopicConfig \<Rightarrow> GenerationOptions \<Rightarrow> world
     \<Rightarrow> settled \<times> world" where
  "executeGeneration env co articleId runId topic options w =
     run_catch runId (generation_body env co articleId runId topic options (now w) w)"

text \<open>
  \<^verbatim>\<open>generateArticle\<close>. The call returns as soon as the run record is saved; the
  generation runs in the background. The returned handle holds the run id, how the
  background promise settles with the world it leaves, and the rejection nobody observes:
  the only continuation the source attaches is \<^verbatim>\<open>finally\<close>, whose promise settles as the
  generation promise does and has no handler of its own. Run and article ids come from
  \<^verbatim>\<open>uuidv4\<close> and are arguments here. The map of active runs is written and cleared but
  never read, and is left out.
\<close>

definition initial_stages :: "(stage_name \<Rightarrow> stage_status) \<Rightarrow> GenerationStage list" where
  "initial_stages st =
     map (\<lambda>n. \<lparr>stage = n, status = st n, started_at = None, completed_at = None, error = None\<rparr>)
       [Research, Outline, Draft, Refine, Export]"

definition finally_promise :: "settled \<Rightarrow> settled" where
  "finally_promise p = p"

definition unobserved_rejection :: "settled \<Rightarrow> exn option" where
  "unobserved_rejection p = (case p of Fulfilled \<Rightarrow> None | Rejected e \<Rightarrow> Some e)"

record run_handle =
  handle_runId :: string
  generationPromise :: "settled \<times> world"
  unhandledRejection :: "exn option"

definition start_background :: "string \<Rightarrow> settled \<times> world \<Rightarrow> run_handle" where
  "start_background runId p =
     \<lparr>handle_runId = runId, generationPromise = p,
      unhandledRejection = unobserved_rejection (finally_promise (fst p))\<rparr>"

definition generateArticle ::
  "config \<Rightarrow> collaborators \<Rightarrow> loader \<Rightarrow> string \<Rightarrow> string \<Rightarrow> string \<Rightarrow> string
     \<Rightarrow> GenerationOptions \<Rightarrow> world \<Rightarrow> (exn + run_handle) \<times> world" where
  "generateArticle env co ld runId articleId topicId version options w =
     (case loadTopic ld topicId version of
        Inl e \<Rightarrow> (Inl e, w)
      | Inr topic \<Rightarrow>
          (let stages0 = initial_stages
                 (\<lambda>n. if n = Research \<and> skipResearch options then Cancelled else Pending);
               articleRun = \<lparr>run_id = runId, topic_id = topicId, topic_version = version,
                             run_status = Run_in_progress, stages = stages0, article_id = None,
                             run_error = None, created_at = now w, updated_at = Some (now w),
                             run_completed_at = None\<rparr>;
               w1 = saveArticleRun articleRun w
           in (Inr (start_background runId
                      (executeGeneration env co articleId runId topic options w1)), w1)))"

text \<open>\<^verbatim>\<open>cancelRun\<close>.\<close>

fun run_status_label :: "run_status \<Rightarrow> string" where
  "run_status_label Run_pending = ''pending''"
| "run_status_label Run_in_progress = ''in_progress''"
| "run_status_label Run_completed = ''completed''"
| "run_status_label Run_failed = ''failed''"

definition cancelRun :: "string \<Rightarrow> world \<Rightarrow> (exn + unit) \<times> world" where
  "cancelRun runId w =
     (case getArticleRun runId w of
        Inl e \<Rightarrow> (Inl e, w)
      | Inr run \<Rightarrow>
          if run_status run = Run_completed \<or> run_status run = Run_failed
          then (Inl (BadRequestException
                       (''Cannot cancel run in status: '' @ run_status_label (run_status run))), w)
          else (Inr (), saveArticleRun
                  (run\<lparr>run_status := Run_failed, run_error := Some ''Cancelled by user'',
                       updated_at := Some (now w)\<rparr>) w))"


subsection \<open>Regeneration\<close>

text \<open>The export stage function of \<^verbatim>\<open>executeRegeneration\<close>.\<close>

definition regen_export_fn ::
  "collaborators \<Rightarrow> TopicConfig \<Rightarrow> Article \<Rightarrow> world \<Rightarrow> string behaviour \<times> world" where
  "regen_export_fn co topic article w =
     (let article1 = article\<lparr>art_updated_at := Some (now w)\<rparr>
      in export_all (exportArticle co) article1 (formats topic) (saveArticle article1 w))"

text \<open>
  The body of the \<^verbatim>\<open>try\<close> block of \<^verbatim>\<open>executeRegeneration\<close>, in two parts as for
  the generation. The copy of the existing article is updated as the requested stages
  deliver; a stage that is not requested leaves the article's own value in place.
\<close>

definition regeneration_tail ::
  "config \<Rightarrow> collaborators \<Rightarrow> string \<Rightarrow> TopicConfig \<Rightarrow> Article \<Rightarrow> string list
     \<Rightarrow> ResearchResult \<Rightarrow> unit task" where
  "regeneration_tail env co runId topic existingArticle stgs researchResult =
     (let article1 = existingArticle\<lparr>citations := sources researchResult\<rparr> in
      andThen
        (if ''outline'' \<in> set stgs
         then executeStage env runId Outline (outline_fn co topic (Some researchResult))
         else ret (outline article1))
        (\<lambda>ol.
           let article2 = article1\<lparr>outline := ol\<rparr> in
           andThen
             (if ''draft'' \<in> set stgs
              then executeStage env runId Draft (draft_fn co topic ol (Some researchResult))
              else ret (content article2))
             (\<lambda>ct.
                let article3 = article2\<lparr>content := ct\<rparr> in
                andThen
                  (if ''refine'' \<in> set stgs
                   then executeStage env runId Refine
                          (refine_fn co topic ct (citations article3))
                   else ret (content article3, seo article3))
                  (\<lambda>(refinedContent, seoMetadata).
                     let article4 = article3\<lparr>content := refinedContent, seo := seoMetadata\<rparr> in
                     andThen
                       (if ''export'' \<in> set stgs
                        then executeStage env runId Export (regen_export_fn co topic article4)
                        else ret (art_id article4))
                       (\<lambda>exported w.
                          (case updateRunStatus runId Run_completed None w of
                             Inl e \<Rightarrow> (Inl e, w)
                           | Inr w' \<Rightarrow> (Inr (), w')))))))"

definition regeneration_body ::
  "config \<Rightarrow> collaborators \<Rightarrow> string \<Rightarrow> TopicConfig \<Rightarrow> Article \<Rightarrow> string list \<Rightarrow> unit task" where
  "regeneration_body env co runId topic existingArticle stgs =
     andThen
       (if ''research'' \<in> set stgs \<and> research_enabled topic
        then executeStage env runId Research (research_fn co topic)
        else (\<lambda>w. (Inr \<lparr>query = title topic @ '' research'',
                         sources = citations existingArticle, summary = [],
                         key_points = [], retrieved_at = now w\<rparr>, w)))
       (regeneration_tail env co runId topic existingArticle stgs)"

definition executeRegeneration ::
  "config \<Rightarrow> collaborators \<Rightarrow> string \<Rightarrow> TopicConfig \<Rightarrow> Article \<Rightarrow> string list \<Rightarrow> world
     \<Rightarrow> settled \<times> world" where
  "executeRegeneration env co runId topic existingArticle stgs w =
     run_catch runId (regeneration_body env co runId topic existingArticle stgs w)"

definition regenerateArticle ::
  "config \<Rightarrow> collaborators \<Rightarrow> loader \<Rightarrow> string \<Rightarrow> string \<Rightarrow> string \<Rightarrow> string
     \<Rightarrow> string list option \<Rightarrow> world \<Rightarrow> (exn + run_handle) \<times> world" where
  "regenerateArticle env co ld runId articleId topicId version stgs w =
     (case loadTopic ld topicId version of
        Inl e \<Rightarrow> (Inl e, w)
      | Inr topic \<Rightarrow>
          (case getArticle articleId w of
             Inl e \<Rightarrow> (Inl e, w)
           | Inr existingArticle \<Rightarrow>
               (let stagesToRun = (case stgs of None \<Rightarrow> [''refine'', ''export''] | Some l \<Rightarrow> l);
                    generationStages = initial_stages
                      (\<lambda>n. if stage_label n \<in> set stagesToRun then Pending else Cancelled);
                    articleRun = \<lparr>run_id = runId, topic_id = topicId, topic_version = version,
                                  run_status = Run_in_progress, stages = generationStages,
                                  article_id = Some articleId, run_error = None,
                                  created_at = now w, updated_at = Some (now w),
                                  run_completed_at = None\<rparr>;
                    w1 = saveArticleRun articleRun w
                in (Inr (start_background runId
                           (executeRegeneration env co runId topic existingArticle
                              stagesToRun w1)), w1))))"

subsection \<open>The two ways a run is started\<close>

text \<open>
  A run is created by \<^verbatim>\<open>generateArticle\<close> or by \<^verbatim>\<open>regenerateArticle\<close>. For a generation
  the article id is the fresh id of the article to be written; a regeneration names the
  existing article.
\<close>

datatype request =
  Generate string string GenerationOptions
| Regenerate string string string "string list option"

definition start_run ::
  "config \<Rightarrow> collaborators \<Rightarrow> loader \<Rightarrow> string \<Rightarrow> string \<Rightarrow> request \<Rightarrow> world
     \<Rightarrow> (exn + run_handle) \<times> world" where
  "start_run env co ld runId freshArticleId req w =
     (case req of
        Generate topicId version options \<Rightarrow>
          generateArticle env co ld runId freshArticleId topicId version options w
      | Regenerate articleId topicId version stgs \<Rightarrow>
          regenerateArticle env co ld runId articleId topicId version stgs w)"

section \<open>Generation statistics\<close>

text \<open>
  The run log entries read by \<^verbatim>\<open>getGenerationStats\<close> (\<^verbatim>\<open>RunMetadata\<close> of the second
  pipeline): a timestamp is the milliseconds \<^verbatim>\<open>new Date(...).getTime()\<close> gives, or absent
  (an empty string is absent for the test \<^verbatim>\<open>log.completed_at && log.started_at\<close>).
\<close>

datatype log_status = Log_running | Log_completed | Log_failed | Log_cancelled

record RunMetadata =
  log_run_id :: string
  log_topic_id :: string
  log_started_at :: "int option"
  log_completed_at :: "int option"
  log_status :: log_status

record generation_stats =
  totalRuns :: nat
  successfulRuns :: nat
  failedRuns :: nat
  averageDuration :: rat
  byTopic :: "string \<rightharpoonup> nat"

text \<open>The \<^verbatim>\<open>for\<close> loop: the counts by topic, the total duration and the number of durations.\<close>

fun stats_loop ::
  "RunMetadata list \<Rightarrow> (string \<rightharpoonup> nat) \<times> int \<times> nat \<Rightarrow> (string \<rightharpoonup> nat) \<times> int \<times> nat" where
  "stats_loop [] acc = acc"
| "stats_loop (l # ls) (topics, totalDuration, durationCount) =
     (let topics1 = topics(log_topic_id l \<mapsto>
                       (case topics (log_topic_id l) of None \<Rightarrow> 0 | Some c \<Rightarrow> c) + 1)
      in case (log_completed_at l, log_started_at l) of
           (Some c, Some s) \<Rightarrow> stats_loop ls (topics1, totalDuration + (c - s), durationCount + 1)
         | _ \<Rightarrow> stats_loop ls (topics1, totalDuration, durationCount))"

definition getGenerationStats :: "RunMetadata list \<Rightarrow> generation_stats" where
  "getGenerationStats logs =
     (let (topics, totalDuration, durationCount) = stats_loop logs (Map.empty, 0, 0)
      in \<lparr>totalRuns = length logs,
          successfulRuns = length (filter (\<lambda>l. log_status l = Log_completed) logs),
          failedRuns = length (filter (\<lambda>l. log_status l = Log_failed) logs),
          averageDuration = (if durationCount > 0
                             then of_int totalDuration / of_nat durationCount / 1000 else 0),
          byTopic = topics\<rparr>)"


text \<open>
  The average as the specification words it: over the entries that have both timestamps,
  zero when there is none.
\<close>

definition timed :: "RunMetadata \<Rightarrow> bool" where
  "timed l = (log_started_at l \<noteq> None \<and> log_completed_at l \<noteq> None)"

definition duration_ms :: "RunMetadata \<Rightarrow> int" where
  "duration_ms l = the (log_completed_at l) - the (log_started_at l)"

definition spec_averageDuration :: "RunMetadata list \<Rightarrow> rat" where
  "spec_averageDuration logs =
     (let ts = filter timed logs
      in if ts = [] then 0
         else of_int (sum_list (map duration_ms ts)) / of_nat (length ts) / 1000)"

section \<open>Observations on runs\<close>

text \<open>
  What the properties below read off a world: whether a run is stored under its own id,
  a stage record by name, the run-level fields, and the events a run added to the
  journal. The remaining definitions describe the runs that stage execution can produce,
  for the proofs.
\<close>

definition stored :: "string \<Rightarrow> world \<Rightarrow> bool" where
  "stored rid w = (case runs w rid of None \<Rightarrow> False | Some r \<Rightarrow> run_id r = rid)"

definition stage_of :: "string \<Rightarrow> world \<Rightarrow> stage_name \<Rightarrow> GenerationStage option" where
  "stage_of rid w n =
     (case runs w rid of None \<Rightarrow> None | Some r \<Rightarrow> find (\<lambda>s. stage s = n) (stages r))"

definition stage_names :: "string \<Rightarrow> world \<Rightarrow> stage_name list" where
  "stage_names rid w = (case runs w rid of None \<Rightarrow> [] | Some r \<Rightarrow> map stage (stages r))"

definition run_part :: "string \<Rightarrow> world \<Rightarrow> (run_status \<times> string option \<times> nat option) option" where
  "run_part rid w = map_option (\<lambda>r. (run_status r, run_error r, run_completed_at r)) (runs w rid)"

definition agent_event :: "event \<Rightarrow> bool" where
  "agent_event e = (case e of SaveArticleRun r \<Rightarrow> False | StageFn r n \<Rightarrow> False | _ \<Rightarrow> True)"

definition running_in :: "stage_name \<Rightarrow> ArticleRun \<Rightarrow> bool" where
  "running_in n r = (case find (\<lambda>s. stage s = n) (stages r) of
                       None \<Rightarrow> False
                     | Some s \<Rightarrow> status s = In_progress \<and> started_at s \<noteq> None)"

definition emits :: "(event \<Rightarrow> bool) \<Rightarrow> (world \<Rightarrow> 'a behaviour \<times> world) \<Rightarrow> bool" where
  "emits Q fn = (\<forall>w. runs (snd (fn w)) = runs w
                 \<and> (\<exists>evs. journal (snd (fn w)) = journal w @ evs
                        \<and> list_all (\<lambda>e. agent_event e \<and> Q e) evs))"

fun pipeline_index :: "stage_name \<Rightarrow> nat" where
  "pipeline_index Research = 0"
| "pipeline_index Outline = 1"
| "pipeline_index Draft = 2"
| "pipeline_index Refine = 3"
| "pipeline_index Export = 4"

definition flush_ok :: "event option \<Rightarrow> event \<Rightarrow> bool" where
  "flush_ok prev e =
     (case e of
        StageFn rid n \<Rightarrow>
          (case prev of
             Some (SaveArticleRun r) \<Rightarrow> run_id r = rid \<and> running_in n r
           | _ \<Rightarrow> False)
      | _ \<Rightarrow> True)"

fun flushed_from :: "event option \<Rightarrow> event list \<Rightarrow> bool" where
  "flushed_from prev [] = True"
| "flushed_from prev (e # es) = (flush_ok prev e \<and> flushed_from (Some e) es)"

definition has_all_stages :: "string \<Rightarrow> world \<Rightarrow> bool" where
  "has_all_stages rid w = (\<forall>n. stage_of rid w n \<noteq> None)"

definition failed_stage :: "(stage_name \<times> exn) option \<Rightarrow> stage_name set" where
  "failed_stage F = (case F of None \<Rightarrow> {} | Some (n, e) \<Rightarrow> {n})"

definition allowed :: "(event \<Rightarrow> bool) \<Rightarrow> string \<Rightarrow> stage_name set \<Rightarrow> event \<Rightarrow> bool" where
  "allowed Q rid S e =
     (case e of
        SaveArticleRun r \<Rightarrow> True
      | StageFn r m \<Rightarrow> r = rid \<and> m \<in> S
      | _ \<Rightarrow> Q e)"

definition stages_after ::
  "(event \<Rightarrow> bool) \<Rightarrow> string \<Rightarrow> stage_name set \<Rightarrow> (stage_name \<times> exn) option \<Rightarrow> world \<Rightarrow> world \<Rightarrow> bool" where
  "stages_after Q rid D F w0 w =
     (stored rid w
      \<and> stage_names rid w = stage_names rid w0
      \<and> (\<forall>m. m \<notin> D \<union> failed_stage F \<longrightarrow> stage_of rid w m = stage_of rid w0 m)
      \<and> (\<forall>m\<in>D. map_option status (stage_of rid w m) = Some Completed)
      \<and> (\<forall>n e. F = Some (n, e) \<longrightarrow>
             (\<exists>s. stage_of rid w n = Some s \<and> status s = Failed \<and> error s = Some (message e))
             \<and> n \<notin> D \<and> (\<forall>m\<in>D. pipeline_index m < pipeline_index n))
      \<and> (\<exists>evs. journal w = journal w0 @ evs
             \<and> list_all (allowed Q rid (D \<union> failed_stage F)) evs
             \<and> (\<forall>m\<in>D \<union> failed_stage F. StageFn rid m \<in> set evs)
             \<and> (\<forall>p. flushed_from p evs)
             \<and> ((evs = [] \<and> runs w rid = runs w0 rid)
                  \<or> (evs \<noteq> [] \<and> (\<exists>r. last evs = SaveArticleRun r \<and> runs w rid = Some r)))
             \<and> (\<forall>r m. SaveArticleRun r \<in> set evs \<longrightarrow> m \<notin> D \<union> failed_stage F
                    \<longrightarrow> find (\<lambda>s. stage s = m) (stages r) = stage_of rid w0 m)))"

definition export_event :: "event \<Rightarrow> bool" where
  "export_event e =
     (case e of ExportArticle a f \<Rightarrow> True | SaveExport i f c \<Rightarrow> True | _ \<Rightarrow> False)"

definition research_only_if :: "bool \<Rightarrow> event \<Rightarrow> bool" where
  "research_only_if c e = (case e of ConductResearch t \<Rightarrow> c | _ \<Rightarrow> True)"

definition later_stages :: "stage_name set" where
  "later_stages = {Outline, Draft, Refine, Export}"

definition body_post ::
  "(event \<Rightarrow> bool) \<Rightarrow> string \<Rightarrow> stage_name set \<Rightarrow> stage_name set \<Rightarrow> world \<Rightarrow> exn + unit \<Rightarrow> world \<Rightarrow> bool" where
  "body_post Q rid D0 P w0 res w' =
     (\<exists>D F. stages_after Q rid D F w0 w' \<and> D0 \<subseteq> D \<and> D \<subseteq> D0 \<union> P
        \<and> (case res of
              Inr u \<Rightarrow> F = None \<and> D = D0 \<union> P
                       \<and> (\<exists>t. run_part rid w' = Some (Run_completed, None, Some t))
            | Inl e \<Rightarrow> (\<exists>n. F = Some (n, e) \<and> n \<in> P) \<and> run_part rid w' = run_part rid w0))"

definition run_post ::
  "(event \<Rightarrow> bool) \<Rightarrow> string \<Rightarrow> stage_name set \<Rightarrow> world \<Rightarrow> settled \<Rightarrow> world \<Rightarrow> bool" where
  "run_post Q rid P w0 p wz =
     (\<exists>D F. stages_after Q rid D F w0 wz \<and> D \<subseteq> P
        \<and> (case p of
              Fulfilled \<Rightarrow> F = None \<and> D = P
                       \<and> (\<exists>t. run_part rid wz = Some (Run_completed, None, Some t))
            | Rejected e \<Rightarrow> (\<exists>n. F = Some (n, e) \<and> n \<in> P)
                       \<and> (\<exists>t. run_part rid wz = Some (Run_failed, Some (message e), Some t))))"

definition stage_status :: "string \<Rightarrow> world \<Rightarrow> stage_name \<Rightarrow> stage_status option" where
  "stage_status rid w n = map_option status (stage_of rid w n)"

definition new_events :: "world \<Rightarrow> world \<Rightarrow> event list" where
  "new_events w w' = drop (length (journal w)) (journal w')"

definition regen_events :: "TopicConfig \<Rightarrow> Article \<Rightarrow> string list \<Rightarrow> event \<Rightarrow> bool" where
  "regen_events topic a stgs e =
     (let ran = (''research'' \<in> set stgs \<and> research_enabled topic) in
      case e of
        ConductResearch t \<Rightarrow> ran
      | GenerateOutline t rr \<Rightarrow>
          ''outline'' \<in> set stgs \<and> (\<not> ran \<longrightarrow> map_option sources rr = Some (citations a))
      | GenerateDraft t ol rr \<Rightarrow>
          ''draft'' \<in> set stgs \<and> (''outline'' \<notin> set stgs \<longrightarrow> ol = outline a)
      | RefineAndOptimize t ct cs \<Rightarrow>
          ''refine'' \<in> set stgs \<and> (''draft'' \<notin> set stgs \<longrightarrow> ct = content a)
          \<and> (\<not> ran \<longrightarrow> cs = citations a)
      | SaveArticle a' \<Rightarrow>
          ''export'' \<in> set stgs \<and> art_id a' = art_id a
          \<and> (''outline'' \<notin> set stgs \<longrightarrow> outline a' = outline a)
          \<and> (\<not> ran \<longrightarrow> citations a' = citations a)
          \<and> (''draft'' \<notin> set stgs \<and> ''refine'' \<notin> set stgs \<longrightarrow> content a' = content a)
          \<and> (''refine'' \<notin> set stgs \<longrightarrow> seo a' = seo a)
      | ExportArticle a' f \<Rightarrow> ''export'' \<in> set stgs
      | SaveExport i f c \<Rightarrow> ''export'' \<in> set stgs
      | _ \<Rightarrow> True)"

definition requested :: "TopicConfig \<Rightarrow> string list \<Rightarrow> stage_name set" where
  "requested topic stgs =
     {n. stage_label n \<in> set stgs \<and> (n = Research \<longrightarrow> research_enabled topic)}"

text \<open>
  The world in which \<^verbatim>\<open>executeStage\<close> calls the stage function: the stage has been
  saved as in progress and the call is in the journal.
\<close>

definition call_world :: "string \<Rightarrow> stage_name \<Rightarrow> world \<Rightarrow> world" where
  "call_world rid n w =
     (case updateStageStatus rid n In_progress None w of
        Inl e \<Rightarrow> w
      | Inr w1 \<Rightarrow> log (StageFn rid n) w1)"

text \<open>
  A stage function is in time when it settles with a value no later than the timer, and
  late when it settles after the timer or never. A late collaborator can be replaced by
  one that throws the timeout error at the moment of the timeout: \<open>as_thrown\<close> does so
  for the four agents.
\<close>

definition in_time :: "nat \<Rightarrow> 'a behaviour \<Rightarrow> bool" where
  "in_time t b = (case b of Never \<Rightarrow> False | Settles d r \<Rightarrow> d \<le> t \<and> \<not> isl r)"




section \<open>Concrete runs\<close>

definition stage_record :: "stage_name \<Rightarrow> stage_status \<Rightarrow> GenerationStage" where
  "stage_record n st =
     \<lparr>stage = n, status = st, started_at = None, completed_at = None, error = None\<rparr>"

definition run_with :: "run_status \<Rightarrow> GenerationStage list \<Rightarrow> ArticleRun" where
  "run_with st sts =
     \<lparr>run_id = ''r1'', topic_id = ''topic'', topic_version = ''1.0.0'', run_status = st,
      stages = sts, article_id = None, run_error = None, created_at = 0, updated_at = Some 0,
      run_completed_at = None\<rparr>"

definition world_with :: "ArticleRun \<Rightarrow> world" where
  "world_with r = \<lparr>runs = [run_id r \<mapsto> r], articles = Map.empty, now = 7, journal = []\<rparr>"

text \<open>Three stages, two of them completed.\<close>

definition three_stage_run :: ArticleRun where
  "three_stage_run =
     run_with Run_in_progress
       [stage_record Research Completed, stage_record Outline Completed,
        stage_record Draft Pending]"

text \<open>Five stages, two completed and the third running.\<close>

definition polled_run :: ArticleRun where
  "polled_run =
     run_with Run_in_progress
       [stage_record Research Completed, stage_record Outline Completed,
        stage_record Draft In_progress, stage_record Refine Pending,
        stage_record Export Pending]"

text \<open>A topic file, its loader and the configuration it validates to.\<close>

definition demo_raw :: raw_topic where
  "demo_raw =
     \<lparr>raw_id = Some ''t1'', raw_version = Some ''1.0.0'', raw_title = Some ''Title'',
      raw_audience = Some ''devs'', raw_length = Some ''100-200'',
      raw_models = Some (''m1'', ''m2'', ''m3''), raw_research = Some (Some True),
      raw_keywords = Some [''k''], raw_formats = Some [''md'']\<rparr>"

definition demo_loader :: loader where
  "demo_loader =
     \<lparr>source = Local, apiUrl = None, files = [''t1'' \<mapsto> Parsed demo_raw],
      api = (\<lambda>i v. Http404)\<rparr>"

definition demo_topic :: TopicConfig where
  "demo_topic =
     \<lparr>cfg_id = ''t1'', cfg_version = ''1.0.0'', title = ''Title'', audience = ''devs'',
      length_range = ''100-200'', models = (''m1'', ''m2'', ''m3''), research_enabled = True,
      seo_keywords = [''k''], formats = [Md]\<rparr>"

definition demo_research :: ResearchResult where
  "demo_research =
     \<lparr>query = ''q'', sources = [''c1''], summary = ''s'', key_points = [], retrieved_at = 0\<rparr>"

text \<open>Collaborators that all succeed after 10 ms.\<close>

definition good_agents :: collaborators where
  "good_agents =
     \<lparr>conductResearch = (\<lambda>t. Settles 10 (Inr demo_research)),
      generateOutline = (\<lambda>t r. Settles 10 (Inr ''outline'')),
      generateDraft = (\<lambda>t ol r. Settles 10 (Inr ''draft'')),
      refineAndOptimize = (\<lambda>t c cs. Settles 10 (Inr (''refined'', ''seo''))),
      exportArticle = (\<lambda>a f. Settles 10 (Inr ''exported''))\<rparr>"

text \<open>The draft agent throws \<^verbatim>\<open>rate limited\<close>.\<close>

definition rate_limited_agents :: collaborators where
  "rate_limited_agents =
     good_agents\<lparr>generateDraft := (\<lambda>t ol r. Settles 10 (Inl (Error ''rate limited'')))\<rparr>"


definition empty_world :: world where
  "empty_world = \<lparr>runs = Map.empty, articles = Map.empty, now = 1000, journal = []\<rparr>"

definition default_config :: config where
  "default_config = \<lparr>STAGE_TIMEOUT_MS = None\<rparr>"


definition plain_options :: GenerationOptions where
  "plain_options = \<lparr>skipResearch = False, dryRun = False, saveOutput = None, stageTimeout = None\<rparr>"

definition skip_options :: GenerationOptions where
  "skip_options = \<lparr>skipResearch = True, dryRun = False, saveOutput = None, stageTimeout = None\<rparr>"

text \<open>An article written earlier, and a world that stores it.\<close>

definition existing_article :: Article where
  "existing_article =
     \<lparr>art_id = ''a0'', art_topic_id = ''t1'', art_topic_version = ''1.0.0'',
      art_status = Art_published, outline = ''old outline'', content = ''old content'',
      seo = ''old seo'', citations = [''c0''], metadata = None, art_created_at = 1,
      art_updated_at = None\<rparr>"

definition library_world :: world where
  "library_world =
     \<lparr>runs = Map.empty, articles = [''a0'' \<mapsto> existing_article], now = 1000, journal = []\<rparr>"

text \<open>
  A generation in which the draft agent throws: the call, the handle it returns and the
  world the background run leaves.
\<close>

definition rate_limited_start :: "(exn + run_handle) \<times> world" where
  "rate_limited_start =
     start_run default_config rate_limited_agents demo_loader ''r1'' ''a1''
       (Generate ''t1'' ''1.0.0'' plain_options) empty_world"

definition rate_limited_handle :: run_handle where
  "rate_limited_handle = projr (fst rate_limited_start)"

definition rate_limited_final :: world where
  "rate_limited_final = snd (generationPromise rate_limited_handle)"

text \<open>A generation in which the exporter throws \<^verbatim>\<open>disk full\<close>: the last stage fails.\<close>

definition export_failing_agents :: collaborators where
  "export_failing_agents =
     good_agents\<lparr>exportArticle := (\<lambda>a f. Settles 10 (Inl (Error ''disk full'')))\<rparr>"

definition export_failed_start :: "(exn + run_handle) \<times> world" where
  "export_failed_start =
     start_run default_config export_failing_agents demo_loader ''r1'' ''a1''
       (Generate ''t1'' ''1.0.0'' plain_options) empty_world"

definition export_failed_handle :: run_handle where
  "export_failed_handle = projr (fst export_failed_start)"

definition export_failed_final :: world where
  "export_failed_final = snd (generationPromise export_failed_handle)"

text \<open>The world after cancelling the run that is in progress.\<close>

definition cancelled_world :: world where
  "cancelled_world = snd (cancelRun ''r1'' (world_with polled_run))"


text \<open>A generation with the \<^verbatim>\<open>skipResearch\<close> option in which every collaborator succeeds.\<close>

definition skipped_start :: "(exn + run_handle) \<times> world" where
  "skipped_start =
     generateArticle default_config good_agents demo_loader ''r1'' ''a1'' ''t1'' ''1.0.0''
       skip_options empty_world"

definition skipped_handle :: run_handle where
  "skipped_handle = projr (fst skipped_start)"

definition skipped_final :: world where
  "skipped_final = snd (generationPromise skipped_handle)"

text \<open>A regeneration of the stored article with no stage list.\<close>

definition regen_start :: "(exn + run_handle) \<times> world" where
  "regen_start =
     regenerateArticle default_config good_agents demo_loader ''r2'' ''a0'' ''t1'' ''1.0.0''
       None library_world"

definition regen_handle :: run_handle where
  "regen_handle = projr (fst regen_start)"

definition regen_final :: world where
  "regen_final = snd (generationPromise regen_handle)"

section \<open>Properties of the status projection\<close>

lemma js_round_percent:
  assumes "0 < t"
  shows "js_round (of_nat c / of_nat t * 100) = (200 * int c + int t) div (2 * int t)"
proof -
  have "(of_nat c / of_nat t * 100 + 1 / 2 :: rat)
          = of_int (200 * int c + int t) / of_int (2 * int t)"
    using assms by (simp add: field_simps)
  then show ?thesis
    unfolding js_round_def by (simp only: floor_divide_of_int_eq)
qed

lemma js_round_zero: "js_round 0 = 0"
  using floor_divide_of_int_eq[of 1 2, where ?'a = rat] by (simp add: js_round_def)

lemma half_up_bounds:
  fixes c t :: int
  assumes "0 < t" "0 \<le> c" "c \<le> t"
  defines "p \<equiv> (200 * c + t) div (2 * t)"
  shows "0 \<le> p" "p \<le> 100" "2 * \<bar>p * t - 100 * c\<bar> \<le> t" "t dvd 100 * c \<Longrightarrow> p * t = 100 * c"
proof -
  define r where "r = (200 * c + t) mod (2 * t)"
  have split: "200 * c + t = 2 * (p * t) + r"
    unfolding p_def r_def using div_mult_mod_eq[of "200 * c + t" "2 * t"] by (simp add: algebra_simps)
  have r0: "0 \<le> r" and r1: "r < 2 * t"
    unfolding r_def using assms(1) by simp_all
  show "0 \<le> p"
    unfolding p_def using assms(1,2) by (simp add: pos_imp_zdiv_nonneg_iff)
  have "2 * (p * t) \<le> 201 * t"
    using split r0 assms(3) by linarith
  then have "(2 * p) * t \<le> 201 * t" by (simp add: algebra_simps)
  then have "2 * p \<le> 201" using assms(1) by (simp only: mult_le_cancel_right_pos)
  then show "p \<le> 100" by linarith
  have "2 * \<bar>x - 100 * c\<bar> \<le> t" if "200 * c + t = 2 * x + r" for x
    using that r0 r1 by presburger
  from this[OF split] show bound: "2 * \<bar>p * t - 100 * c\<bar> \<le> t" .
  show "p * t = 100 * c" if "t dvd 100 * c"
  proof -
    from that obtain k where k: "100 * c = t * k" by (auto simp: dvd_def)
    have "p * t - 100 * c = (p - k) * t" using k by (simp add: algebra_simps)
    with bound have "2 * \<bar>(p - k) * t\<bar> \<le> t" by simp
    then have "(2 * \<bar>p - k\<bar>) * t \<le> 1 * t" using assms(1) by (simp add: abs_mult)
    then have "2 * \<bar>p - k\<bar> \<le> 1" using assms(1) by (simp only: mult_le_cancel_right_pos)
    then have "p = k" by presburger
    then show ?thesis using k by (simp add: algebra_simps)
  qed
qed

lemma find_None_set: "(find P xs = None) = (\<forall>x\<in>set xs. \<not> P x)"
  by (induction xs) auto

lemma find_Some_set: "find P xs = Some x \<Longrightarrow> x \<in> set xs \<and> P x"
  by (induction xs) (auto split: if_splits)

text \<open>
  C3, as the code has it. For every stored run record the status read succeeds; the
  progress is 0 when the record has no stages, lies between 0 and 100, and is
  \<open>100 * completed / total\<close> rounded to a nearest integer: it differs from the exact
  quotient by at most one half, and equals it whenever the quotient is an integer. The
  current stage is undefined exactly when no stage is in progress, and otherwise names a
  stage that is in progress.
\<close>

theorem progress_is_rounded_percentage:
  assumes "runs w runId = Some run"
  shows "\<exists>v. getArticleRunStatus runId w = Inr v
           \<and> (stages run = [] \<longrightarrow> progress v = 0)
           \<and> 0 \<le> progress v \<and> progress v \<le> 100
           \<and> 2 * \<bar>progress v * snd (stage_counts run) - 100 * fst (stage_counts run)\<bar>
                 \<le> snd (stage_counts run)
           \<and> (snd (stage_counts run) dvd 100 * fst (stage_counts run)
                \<longrightarrow> progress v * snd (stage_counts run) = 100 * fst (stage_counts run))
           \<and> (currentStage v = None \<longleftrightarrow> (\<forall>s\<in>set (stages run). status s \<noteq> In_progress))
           \<and> (\<forall>n. currentStage v = Some n
                  \<longrightarrow> (\<exists>s\<in>set (stages run). stage s = n \<and> status s = In_progress))"
proof -
  define c where "c = length (filter (\<lambda>s. status s = Completed) (stages run))"
  define t where "t = length (stages run)"
  define v where "v = project_status run"
  have got: "getArticleRunStatus runId w = Inr v"
    using assms by (simp add: getArticleRunStatus_def getArticleRun_def v_def)
  have cur: "currentStage v = map_option stage (find (\<lambda>s. status s = In_progress) (stages run))"
    by (simp add: v_def project_status_def Let_def)
  have cs: "stage_counts run = (int c, int t)"
    by (simp add: stage_counts_def c_def t_def)
  have cle: "c \<le> t" by (simp add: c_def t_def)
  have none: "(currentStage v = None) = (\<forall>s\<in>set (stages run). status s \<noteq> In_progress)"
    by (simp add: cur find_None_set)
  have some: "\<exists>s\<in>set (stages run). stage s = n \<and> status s = In_progress"
    if "currentStage v = Some n" for n
    using that find_Some_set[of "\<lambda>s. status s = In_progress" "stages run"] by (auto simp: cur)
  show ?thesis
  proof (cases "t = 0")
    case True
    then have "progress v = 0"
      by (simp add: v_def project_status_def Let_def t_def js_round_zero)
    moreover from True cle have "c = 0" by simp
    ultimately show ?thesis using got none some cs True by (auto simp: t_def)
  next
    case False
    then have pos: "0 < t" by simp
    have pv: "progress v = (200 * int c + int t) div (2 * int t)"
      using pos js_round_percent[OF pos, of c]
      by (simp add: v_def project_status_def Let_def t_def c_def)
    have "0 < int t" "0 \<le> int c" "int c \<le> int t" using pos cle by simp_all
    note b = half_up_bounds[OF this]
    from False have "stages run \<noteq> []" by (simp add: t_def)
    then show ?thesis using got none some cs b pv by auto
  qed
qed

theorem progress_is_rounded_percentage_witness:
  "runs (world_with polled_run) ''r1'' = Some polled_run
   \<and> (\<exists>v. getArticleRunStatus ''r1'' (world_with polled_run) = Inr v
          \<and> progress v = 40 \<and> currentStage v = Some Draft)"
proof -
  have h: "runs (world_with polled_run) ''r1'' = Some polled_run"
    by (simp add: world_with_def polled_run_def run_with_def)
  have sc: "stage_counts polled_run = (2, 5)"
    by (simp add: stage_counts_def polled_run_def run_with_def stage_record_def)
  from progress_is_rounded_percentage[OF h] obtain v where
    v: "getArticleRunStatus ''r1'' (world_with polled_run) = Inr v"
    and ex: "snd (stage_counts polled_run) dvd 100 * fst (stage_counts polled_run)
              \<longrightarrow> progress v * snd (stage_counts polled_run) = 100 * fst (stage_counts polled_run)"
    by blast
  from ex have "progress v = 40" by (simp add: sc)
  moreover have "v = project_status polled_run"
    using v h by (simp add: getArticleRunStatus_def getArticleRun_def)
  then have "currentStage v = Some Draft"
    by (simp add: project_status_def polled_run_def run_with_def stage_record_def)
  ultimately show ?thesis using h v by blast
qed

text \<open>
  C3 as stated fails: with two of three stages completed the status read reports 67,
  which is neither the quotient \<open>100 * 2 / 3\<close> nor its integer part.
\<close>

theorem progress_not_exact_quotient:
  "progress (project_status three_stage_run) = 67
   \<and> (67::rat) \<noteq> 100 * 2 / 3 \<and> (67::int) \<noteq> 100 * 2 div 3"
  using js_round_percent[of 3 2]
  by (simp add: project_status_def three_stage_run_def run_with_def stage_record_def)

section \<open>Properties of the statistics\<close>

lemma stats_loop_closed:
  "snd (stats_loop logs (tp, td, dc))
     = (td + sum_list (map duration_ms (filter timed logs)), dc + length (filter timed logs))"
  by (induction logs arbitrary: tp td dc)
     (auto simp: timed_def duration_ms_def Let_def split: option.splits)

text \<open>
  C9. The loop of \<^verbatim>\<open>getGenerationStats\<close> averages over exactly the log entries that have
  both timestamps: an entry without one adds neither a duration nor a count, so it is
  left out of the average and not counted as zero. The three counts are the number of
  all entries, of the completed ones and of the failed ones.
\<close>

theorem stats_average_over_timed_runs:
  "totalRuns (getGenerationStats logs) = length logs
   \<and> successfulRuns (getGenerationStats logs)
       = length (filter (\<lambda>l. log_status l = Log_completed) logs)
   \<and> failedRuns (getGenerationStats logs)
       = length (filter (\<lambda>l. log_status l = Log_failed) logs)
   \<and> averageDuration (getGenerationStats logs) = spec_averageDuration logs"
  using stats_loop_closed[of logs Map.empty 0 0]
  by (auto simp: getGenerationStats_def spec_averageDuration_def Let_def split: prod.splits)

section \<open>Properties of stage execution\<close>

lemma find_stage_update_same:
  "find (\<lambda>s. stage s = n) (update_first (\<lambda>s. stage s = n) (set_stage t st err) xs)
     = map_option (set_stage t st err) (find (\<lambda>s. stage s = n) xs)"
  by (induction xs) (auto simp: set_stage_def Let_def)

lemma find_stage_update_other:
  "m \<noteq> n \<Longrightarrow>
   find (\<lambda>s. stage s = m) (update_first (\<lambda>s. stage s = n) (set_stage t st err) xs)
     = find (\<lambda>s. stage s = m) xs"
  by (induction xs) (auto simp: set_stage_def Let_def)

lemma map_stage_update_first:
  "map stage (update_first (\<lambda>s. stage s = n) (set_stage t st err) xs) = map stage xs"
  by (induction xs) (auto simp: set_stage_def Let_def)

lemma updateStageStatus_stored:
  assumes "stored rid w"
  shows "\<exists>r. runs w rid = Some r \<and> run_id r = rid \<and>
           updateStageStatus rid n st err w
             = Inr (saveArticleRun
                 (r\<lparr>stages := update_first (\<lambda>s. stage s = n) (set_stage (now w) st err) (stages r),
                    updated_at := Some (now w)\<rparr>) w)"
  using assms by (auto simp: stored_def updateStageStatus_def getArticleRun_def split: option.splits)

lemma updateStageStatus_effect:
  assumes "stored rid w" "updateStageStatus rid n st err w = Inr w'"
  shows "stored rid w'"
    and "m \<noteq> n \<Longrightarrow> stage_of rid w' m = stage_of rid w m"
    and "stage_of rid w' n = map_option (set_stage (now w) st err) (stage_of rid w n)"
    and "run_part rid w' = run_part rid w"
    and "now w' = now w" and "articles w' = articles w"
    and "\<exists>r. journal w' = journal w @ [SaveArticleRun r] \<and> runs w' rid = Some r \<and> run_id r = rid"
    and "stage_names rid w' = stage_names rid w"
  using updateStageStatus_stored[OF assms(1), of n st err] assms(2)
  by (auto simp: stored_def stage_of_def run_part_def saveArticleRun_def log_def stage_names_def
      find_stage_update_same find_stage_update_other map_stage_update_first)

lemma updateStageStatus_total:
  assumes "stored rid w"
  obtains w' where "updateStageStatus rid n st err w = Inr w'"
  using updateStageStatus_stored[OF assms, of n st err] by blast

lemma stored_journal_now [simp]:
  "stored rid (w\<lparr>journal := j\<rparr>) = stored rid w"
  "stored rid (w\<lparr>now := t\<rparr>) = stored rid w"
  "stage_of rid (w\<lparr>journal := j\<rparr>) = stage_of rid w"
  "stage_of rid (w\<lparr>now := t\<rparr>) = stage_of rid w"
  "run_part rid (w\<lparr>journal := j\<rparr>) = run_part rid w"
  "run_part rid (w\<lparr>now := t\<rparr>) = run_part rid w"
  "stage_names rid (w\<lparr>journal := j\<rparr>) = stage_names rid w"
  "stage_names rid (w\<lparr>now := t\<rparr>) = stage_names rid w"
  by (simp_all add: stored_def stage_of_def run_part_def stage_names_def fun_eq_iff)

lemma same_runs:
  assumes "runs w' = runs w"
  shows "stored rid w' = stored rid w" "stage_of rid w' = stage_of rid w"
        "run_part rid w' = run_part rid w" "stage_names rid w' = stage_names rid w"
  using assms by (simp_all add: stored_def stage_of_def run_part_def stage_names_def fun_eq_iff)

lemma executeStage_step:
  assumes st: "stored rid w" and q: "emits Q fn" and ex: "executeStage env rid n fn w = (res, w')"
  shows "stored rid w'"
    and "\<And>m. m \<noteq> n \<Longrightarrow> stage_of rid w' m = stage_of rid w m"
    and "\<And>s. stage_of rid w n = Some s \<Longrightarrow>
           \<exists>s'. stage_of rid w' n = Some s'
              \<and> status s' = (if isl res then Failed else Completed)
              \<and> error s' = (case res of Inl e \<Rightarrow> Some (message e) | Inr v \<Rightarrow> None)
              \<and> started_at s' \<noteq> None \<and> completed_at s' \<noteq> None"
    and "run_part rid w' = run_part rid w"
    and "\<exists>r1 evs r2. journal w' = journal w @ SaveArticleRun r1 # StageFn rid n # evs @ [SaveArticleRun r2]
           \<and> run_id r1 = rid \<and> (stage_of rid w n \<noteq> None \<longrightarrow> running_in n r1)
           \<and> list_all (\<lambda>e. agent_event e \<and> Q e) evs \<and> runs w' rid = Some r2
           \<and> (\<forall>m. m \<noteq> n \<longrightarrow> find (\<lambda>s. stage s = m) (stages r1) = stage_of rid w m)"
    and "\<exists>w1. res = snd (race (timer env) n (fst (fn w1)))"
    and "stage_names rid w' = stage_names rid w"
proof -
  obtain w1 where u1: "updateStageStatus rid n In_progress None w = Inr w1"
    using updateStageStatus_total[OF st] by blast
  note e1 = updateStageStatus_effect[OF st u1]
  define w1' where "w1' = log (StageFn rid n) w1"
  define b where "b = fst (fn w1')"
  define w2 where "w2 = snd (fn w1')"
  define el where "el = fst (race (timer env) n b)"
  define result where "result = snd (race (timer env) n b)"
  define w3 where "w3 = w2\<lparr>now := now w2 + el\<rparr>"
  define err where "err = (case result of Inl e \<Rightarrow> Some (message e) | Inr v \<Rightarrow> None)"
  define fin where "fin = (if isl result then Failed else Completed)"
  from q obtain evs where r2: "runs w2 = runs w1'" and j2: "journal w2 = journal w1' @ evs"
    and ag: "list_all (\<lambda>e. agent_event e \<and> Q e) evs"
    unfolding emits_def w2_def by blast
  have r1': "runs w1' = runs w1" and j1': "journal w1' = journal w1 @ [StageFn rid n]"
    by (simp_all add: w1'_def log_def)
  have r3: "runs w3 = runs w1" using r2 r1' by (simp add: w3_def)
  have st3: "stored rid w3" using same_runs(1)[OF r3] e1(1) by simp
  obtain w4 where u4: "updateStageStatus rid n fin err w3 = Inr w4"
    using updateStageStatus_total[OF st3] by blast
  note e4 = updateStageStatus_effect[OF st3 u4]
  have fnw: "fn w1' = (b, w2)" by (simp add: b_def w2_def)
  have rc: "race (timer env) n b = (el, result)" by (simp add: el_def result_def)
  have out: "executeStage env rid n fn w = (result, w4)"
  proof (cases result)
    case (Inl e)
    then have "fin = Failed" "err = Some (message e)" by (simp_all add: fin_def err_def)
    with u4 Inl show ?thesis
      using u1 fnw rc
      by (simp add: executeStage_def Let_def w1'_def[symmetric] w3_def[symmetric] stage_failed_def)
  next
    case (Inr v)
    then have "fin = Completed" "err = None" by (simp_all add: fin_def err_def)
    with u4 Inr show ?thesis
      using u1 fnw rc
      by (simp add: executeStage_def Let_def w1'_def[symmetric] w3_def[symmetric])
  qed
  with ex have res: "res = result" and w': "w' = w4" by simp_all
  show "stored rid w'" using e4(1) w' by simp
  show "stage_of rid w' m = stage_of rid w m" if "m \<noteq> n" for m
    using e4(2)[OF that] e1(2)[OF that] same_runs(2)[OF r3] w' by simp
  have chain: "stage_of rid w' n
      = map_option (set_stage (now w3) fin err) (map_option (set_stage (now w) In_progress None) (stage_of rid w n))"
    using e4(3) e1(3) same_runs(2)[OF r3] w' by simp
  show "\<exists>s'. stage_of rid w' n = Some s'
              \<and> status s' = (if isl res then Failed else Completed)
              \<and> error s' = (case res of Inl e \<Rightarrow> Some (message e) | Inr v \<Rightarrow> None)
              \<and> started_at s' \<noteq> None \<and> completed_at s' \<noteq> None"
    if "stage_of rid w n = Some s" for s
    using that chain res by (auto simp: set_stage_def Let_def fin_def err_def)
  show "run_part rid w' = run_part rid w"
    using e4(4) e1(4) same_runs(3)[OF r3] w' by simp
  from e1(7) obtain ra where ja: "journal w1 = journal w @ [SaveArticleRun ra]"
    and sa: "runs w1 rid = Some ra" and ia: "run_id ra = rid" by blast
  from e4(7) obtain rb where jb: "journal w4 = journal w3 @ [SaveArticleRun rb]"
    and sb: "runs w4 rid = Some rb" by blast
  have j3: "journal w3 = journal w2" by (simp add: w3_def)
  have run: "running_in n ra" if "stage_of rid w n \<noteq> None"
    using that e1(3) sa by (auto simp: stage_of_def running_in_def set_stage_def Let_def)
  have oth: "find (\<lambda>s. stage s = m) (stages ra) = stage_of rid w m" if "m \<noteq> n" for m
    using e1(2)[OF that] sa by (simp add: stage_of_def)
  show "\<exists>r1 evs r2. journal w' = journal w @ SaveArticleRun r1 # StageFn rid n # evs @ [SaveArticleRun r2]
           \<and> run_id r1 = rid \<and> (stage_of rid w n \<noteq> None \<longrightarrow> running_in n r1)
           \<and> list_all (\<lambda>e. agent_event e \<and> Q e) evs \<and> runs w' rid = Some r2
           \<and> (\<forall>m. m \<noteq> n \<longrightarrow> find (\<lambda>s. stage s = m) (stages r1) = stage_of rid w m)"
    using ja jb j3 j2 j1' ia run ag w' sb oth by auto
  show "\<exists>w1. res = snd (race (timer env) n (fst (fn w1)))"
    using res result_def b_def by blast
  show "stage_names rid w' = stage_names rid w"
    using e4(8) e1(8) same_runs(4)[OF r3] w' by simp
qed

text \<open>
  The same execution read from the call of the stage function: the world the function is
  called in, and what \<^verbatim>\<open>executeStage\<close> returns from the race.
\<close>

lemma call_world_stored:
  assumes st: "stored rid w"
  shows "\<exists>r. journal (call_world rid n w) = journal w @ [SaveArticleRun r, StageFn rid n]
           \<and> runs (call_world rid n w) rid = Some r \<and> run_id r = rid
           \<and> now (call_world rid n w) = now w \<and> articles (call_world rid n w) = articles w"
proof -
  obtain w1 where u1: "updateStageStatus rid n In_progress None w = Inr w1"
    using updateStageStatus_total[OF st] by blast
  note e1 = updateStageStatus_effect[OF st u1]
  have wc: "call_world rid n w = log (StageFn rid n) w1" by (simp add: call_world_def u1)
  from e1(7) e1(5) e1(6) show ?thesis unfolding wc by (auto simp: log_def)
qed

lemma executeStage_run:
  assumes st: "stored rid w" and q: "emits Q fn"
  shows "\<exists>w'. executeStage env rid n fn w
                 = (snd (race (timer env) n (fst (fn (call_world rid n w)))), w')
           \<and> now w' = now (snd (fn (call_world rid n w)))
                        + fst (race (timer env) n (fst (fn (call_world rid n w))))
           \<and> (\<exists>r. journal w' = journal (snd (fn (call_world rid n w))) @ [SaveArticleRun r]
                  \<and> runs w' rid = Some r)
           \<and> articles w' = articles (snd (fn (call_world rid n w)))"
proof -
  obtain w1 where u1: "updateStageStatus rid n In_progress None w = Inr w1"
    using updateStageStatus_total[OF st] by blast
  note e1 = updateStageStatus_effect[OF st u1]
  define wc where "wc = log (StageFn rid n) w1"
  have cw: "call_world rid n w = wc" by (simp add: call_world_def u1 wc_def)
  define b where "b = fst (fn wc)"
  define w2 where "w2 = snd (fn wc)"
  define el where "el = fst (race (timer env) n b)"
  define result where "result = snd (race (timer env) n b)"
  define w3 where "w3 = w2\<lparr>now := now w2 + el\<rparr>"
  define err where "err = (case result of Inl e \<Rightarrow> Some (message e) | Inr v \<Rightarrow> None)"
  define fin where "fin = (if isl result then Failed else Completed)"
  from q have r2: "runs w2 = runs wc" unfolding emits_def w2_def by blast
  have r3: "runs w3 = runs w1" using r2 by (simp add: w3_def wc_def log_def)
  have st3: "stored rid w3" using same_runs(1)[OF r3] e1(1) by simp
  obtain w4 where u4: "updateStageStatus rid n fin err w3 = Inr w4"
    using updateStageStatus_total[OF st3] by blast
  note e4 = updateStageStatus_effect[OF st3 u4]
  have fnw: "fn wc = (b, w2)" by (simp add: b_def w2_def)
  have rc: "race (timer env) n b = (el, result)" by (simp add: el_def result_def)
  have out: "executeStage env rid n fn w = (result, w4)"
  proof (cases result)
    case (Inl e)
    then have "fin = Failed" "err = Some (message e)" by (simp_all add: fin_def err_def)
    with u4 Inl show ?thesis
      using u1 fnw rc
      by (simp add: executeStage_def Let_def wc_def[symmetric] w3_def[symmetric] stage_failed_def)
  next
    case (Inr v)
    then have "fin = Completed" "err = None" by (simp_all add: fin_def err_def)
    with u4 Inr show ?thesis
      using u1 fnw rc
      by (simp add: executeStage_def Let_def wc_def[symmetric] w3_def[symmetric])
  qed
  have "now w4 = now w2 + el" using e4(5) by (simp add: w3_def)
  moreover have "\<exists>r. journal w4 = journal w2 @ [SaveArticleRun r] \<and> runs w4 rid = Some r"
    using e4(7) by (auto simp: w3_def)
  moreover have "articles w4 = articles w2" using e4(6) by (simp add: w3_def)
  ultimately show ?thesis
    unfolding cw using out by (simp add: result_def el_def b_def w2_def)
qed

lemma race_in_time:
  assumes "in_time t b"
  shows "\<exists>d v. b = Settles d (Inr v) \<and> d \<le> t \<and> race t n b = (d, Inr v)"
proof (cases b)
  case Never
  with assms show ?thesis by (simp add: in_time_def)
next
  case (Settles d r)
  with assms show ?thesis by (cases r) (auto simp: in_time_def)
qed

lemma executeStage_in_time:
  assumes st: "stored rid w" and q: "emits Q fn"
    and it: "in_time (timer env) (fst (fn (call_world rid n w)))"
  shows "\<exists>d v w'. fst (fn (call_world rid n w)) = Settles d (Inr v) \<and> d \<le> timer env
           \<and> executeStage env rid n fn w = (Inr v, w') \<and> stored rid w'"
proof -
  from race_in_time[OF it, of n] obtain d v where
    b: "fst (fn (call_world rid n w)) = Settles d (Inr v)" "d \<le> timer env"
    and r: "race (timer env) n (fst (fn (call_world rid n w))) = (d, Inr v)" by blast
  from executeStage_run[OF st q, of env n] r obtain w' where
    ex: "executeStage env rid n fn w = (Inr v, w')" by auto
  from executeStage_step(1)[OF st q ex] b ex show ?thesis by blast
qed

lemma updateRunStatus_stored:
  assumes "stored rid w"
  shows "\<exists>w' r. updateRunStatus rid st err w = Inr w' \<and> stored rid w'
           \<and> journal w' = journal w @ [SaveArticleRun r]
           \<and> stage_of rid w' = stage_of rid w"
  using assms
  by (auto simp: stored_def updateRunStatus_def getArticleRun_def saveArticleRun_def log_def Let_def
      stage_of_def fun_eq_iff split: option.splits)

lemma run_catch_stored:
  assumes st: "stored rid w" and rc: "run_catch rid (res, w) = (p, wz)"
  shows "\<exists>evs. journal wz = journal w @ evs" "stage_of rid wz = stage_of rid w"
    "p = Fulfilled \<longleftrightarrow> \<not> isl res"
proof -
  have "(\<exists>evs. journal wz = journal w @ evs) \<and> stage_of rid wz = stage_of rid w
          \<and> (p = Fulfilled \<longleftrightarrow> \<not> isl res)"
  proof (cases res)
    case (Inr u)
    with rc show ?thesis by (simp add: run_catch_def)
  next
    case (Inl e)
    from updateRunStatus_stored[OF st, of Run_failed "Some (message e)"] obtain w' r where
      "updateRunStatus rid Run_failed (Some (message e)) w = Inr w'"
      "journal w' = journal w @ [SaveArticleRun r]" "stage_of rid w' = stage_of rid w" by blast
    with rc Inl show ?thesis by (auto simp: run_catch_def)
  qed
  then show "\<exists>evs. journal wz = journal w @ evs" "stage_of rid wz = stage_of rid w"
    "p = Fulfilled \<longleftrightarrow> \<not> isl res" by blast+
qed

lemma flushed_from_append:
  "flushed_from p (xs @ ys)
     = (flushed_from p xs \<and> flushed_from (if xs = [] then p else Some (last xs)) ys)"
  by (induction xs arbitrary: p) auto

lemma flushed_agent_events:
  "list_all (\<lambda>e. agent_event e \<and> Q e) evs \<Longrightarrow> flushed_from p evs"
  by (induction evs arbitrary: p) (auto simp: flush_ok_def agent_event_def split: event.splits)

lemma allowed_agent_event: "agent_event e \<Longrightarrow> Q e \<Longrightarrow> allowed Q rid S e"
  by (auto simp: allowed_def agent_event_def split: event.splits)

lemma allowed_mono: "allowed Q rid S e \<Longrightarrow> S \<subseteq> T \<Longrightarrow> allowed Q rid T e"
  by (auto simp: allowed_def split: event.splits)

lemma allowed_simps [simp]:
  "allowed Q rid S (SaveArticleRun r)"
  "allowed Q rid S (StageFn rid' m) = (rid' = rid \<and> m \<in> S)"
  by (simp_all add: allowed_def)

lemma flush_ok_simps [simp]:
  "flush_ok p (SaveArticleRun r)"
  "flush_ok (Some (SaveArticleRun r)) (StageFn rid n) = (run_id r = rid \<and> running_in n r)"
  by (simp_all add: flush_ok_def)

lemma stages_after_refl: "stored rid w \<Longrightarrow> stages_after Q rid {} None w w"
  by (simp add: stages_after_def failed_stage_def)

lemma stages_after_names: "stages_after Q rid D F w0 w \<Longrightarrow> stage_names rid w = stage_names rid w0"
  by (simp add: stages_after_def)

lemma stage_segment:
  fixes r2 :: ArticleRun
  assumes "list_all (allowed Q rid S) evs" "\<forall>p. flushed_from p evs"
    and "run_id r1 = rid" "running_in n r1" "list_all (\<lambda>e. agent_event e \<and> Q e) evs2"
    and "S \<subseteq> T" "n \<in> T"
  defines "evs' \<equiv> evs @ SaveArticleRun r1 # StageFn rid n # evs2 @ [SaveArticleRun r2]"
  shows "list_all (allowed Q rid T) evs'" "\<forall>p. flushed_from p evs'" "last evs' = SaveArticleRun r2"
    "StageFn rid n \<in> set evs'" "set evs \<subseteq> set evs'"
proof -
  have a2: "list_all (allowed Q rid T) evs2"
    using assms(5) by (auto simp: list_all_iff intro: allowed_agent_event)
  have a1: "list_all (allowed Q rid T) evs"
    using assms(1,6) by (auto simp: list_all_iff intro: allowed_mono)
  show "list_all (allowed Q rid T) evs'"
    using a1 a2 assms(7) by (simp add: evs'_def)
  have "flushed_from (Some (StageFn rid n)) (evs2 @ [SaveArticleRun r2])"
    using flushed_agent_events[OF assms(5)] by (simp add: flushed_from_append)
  then show "\<forall>p. flushed_from p evs'"
    using assms(2,3,4) by (simp add: evs'_def flushed_from_append)
  show "last evs' = SaveArticleRun r2" by (simp add: evs'_def)
  show "StageFn rid n \<in> set evs'" by (simp add: evs'_def)
  show "set evs \<subseteq> set evs'" by (auto simp: evs'_def)
qed

lemma stage_ok:
  assumes inv: "stages_after Q rid D None w0 w" and c: "has_all_stages rid w0"
    and q: "emits Q fn" and nD: "n \<notin> D"
    and ex: "executeStage env rid n fn w = (Inr v, w1)"
  shows "stages_after Q rid (insert n D) None w0 w1" "run_part rid w1 = run_part rid w"
proof -
  from inv have st: "stored rid w" by (simp add: stages_after_def)
  note s = executeStage_step[OF st q ex]
  from inv nD have "stage_of rid w n = stage_of rid w0 n"
    by (simp add: stages_after_def failed_stage_def)
  with c obtain s0 where s0: "stage_of rid w n = Some s0" by (auto simp: has_all_stages_def)
  from s(3)[OF s0] have compl: "map_option status (stage_of rid w1 n) = Some Completed" by auto
  from inv obtain evs where j: "journal w = journal w0 @ evs"
    and al: "list_all (allowed Q rid D) evs" and inv_calls: "\<forall>m\<in>D. StageFn rid m \<in> set evs"
    and fl: "\<forall>p. flushed_from p evs"
    by (auto simp: stages_after_def failed_stage_def)
  from s(5) s0 obtain r1 evs2 r2 where
    j1: "journal w1 = journal w @ SaveArticleRun r1 # StageFn rid n # evs2 @ [SaveArticleRun r2]"
    and r1: "run_id r1 = rid" "running_in n r1" and ag: "list_all (\<lambda>e. agent_event e \<and> Q e) evs2"
    and r2: "runs w1 rid = Some r2"
    and o1: "\<forall>m. m \<noteq> n \<longrightarrow> find (\<lambda>s. stage s = m) (stages r1) = stage_of rid w m" by auto
  from inv have old: "\<forall>r m. SaveArticleRun r \<in> set evs \<longrightarrow> m \<notin> D
                        \<longrightarrow> find (\<lambda>s. stage s = m) (stages r) = stage_of rid w0 m"
    and keep: "\<forall>m. m \<notin> D \<longrightarrow> stage_of rid w m = stage_of rid w0 m"
    using j by (auto simp: stages_after_def failed_stage_def)
  have sv: "find (\<lambda>s. stage s = m) (stages r) = stage_of rid w0 m"
    if "SaveArticleRun r \<in> set (evs @ SaveArticleRun r1 # StageFn rid n # evs2 @ [SaveArticleRun r2])"
      and "m \<notin> insert n D" for r m
  proof -
    from that(2) have mn: "m \<noteq> n" and mD: "m \<notin> D" by auto
    from ag have "SaveArticleRun r \<notin> set evs2"
      by (auto simp: list_all_iff agent_event_def)
    with that(1) consider "SaveArticleRun r \<in> set evs" | "r = r1" | "r = r2" by auto
    then show ?thesis
    proof cases
      case 1
      with old mD show ?thesis by blast
    next
      case 2
      with o1 mn keep mD show ?thesis by simp
    next
      case 3
      have "find (\<lambda>s. stage s = m) (stages r2) = stage_of rid w1 m"
        using r2 by (simp add: stage_of_def)
      with 3 s(2)[OF mn] keep mD show ?thesis by simp
    qed
  qed
  have sub: "D \<subseteq> insert n D" "n \<in> insert n D" by auto
  note seg = stage_segment[OF al fl r1 ag sub, of r2]
  have jj: "journal w1 = journal w0 @ (evs @ SaveArticleRun r1 # StageFn rid n # evs2 @ [SaveArticleRun r2])"
    using j j1 by simp
  show "run_part rid w1 = run_part rid w" by (rule s(4))
  show "stages_after Q rid (insert n D) None w0 w1"
    unfolding stages_after_def
  proof (intro conjI)
    show "stored rid w1" by (rule s(1))
    show "stage_names rid w1 = stage_names rid w0"
      using s(7) stages_after_names[OF inv] by simp
    show "\<forall>m. m \<notin> insert n D \<union> failed_stage None \<longrightarrow> stage_of rid w1 m = stage_of rid w0 m"
      using s(2) inv by (auto simp: stages_after_def failed_stage_def)
    have "\<forall>m\<in>D. stage_of rid w1 m = stage_of rid w m" using s(2) nD by metis
    moreover have "\<forall>m\<in>D. map_option status (stage_of rid w m) = Some Completed"
      using inv by (simp add: stages_after_def)
    ultimately show "\<forall>m\<in>insert n D. map_option status (stage_of rid w1 m) = Some Completed"
      using compl by simp
    show "\<forall>n' e. None = Some (n', e) \<longrightarrow>
       (\<exists>s. stage_of rid w1 n' = Some s \<and> status s = Failed \<and> error s = Some (message e))
       \<and> n' \<notin> insert n D \<and> (\<forall>m\<in>insert n D. pipeline_index m < pipeline_index n')" by simp
    show "\<exists>evs. journal w1 = journal w0 @ evs
       \<and> list_all (allowed Q rid (insert n D \<union> failed_stage None)) evs
       \<and> (\<forall>m\<in>insert n D \<union> failed_stage None. StageFn rid m \<in> set evs)
       \<and> (\<forall>p. flushed_from p evs)
       \<and> ((evs = [] \<and> runs w1 rid = runs w0 rid)
            \<or> (evs \<noteq> [] \<and> (\<exists>r. last evs = SaveArticleRun r \<and> runs w1 rid = Some r)))
       \<and> (\<forall>r m. SaveArticleRun r \<in> set evs \<longrightarrow> m \<notin> insert n D \<union> failed_stage None
              \<longrightarrow> find (\<lambda>s. stage s = m) (stages r) = stage_of rid w0 m)"
      using jj seg inv_calls r2 sv
      by (intro exI[of _ "evs @ SaveArticleRun r1 # StageFn rid n # evs2 @ [SaveArticleRun r2]"])
         (simp add: failed_stage_def)
  qed
qed

lemma stage_fail:
  assumes inv: "stages_after Q rid D None w0 w" and c: "has_all_stages rid w0"
    and q: "emits Q fn" and nD: "n \<notin> D" and before: "\<forall>m\<in>D. pipeline_index m < pipeline_index n"
    and ex: "executeStage env rid n fn w = (Inl e, w1)"
  shows "stages_after Q rid D (Some (n, e)) w0 w1" "run_part rid w1 = run_part rid w"
proof -
  from inv have st: "stored rid w" by (simp add: stages_after_def)
  note s = executeStage_step[OF st q ex]
  from inv nD have "stage_of rid w n = stage_of rid w0 n"
    by (simp add: stages_after_def failed_stage_def)
  with c obtain s0 where s0: "stage_of rid w n = Some s0" by (auto simp: has_all_stages_def)
  from s(3)[OF s0] have failed:
    "\<exists>s. stage_of rid w1 n = Some s \<and> status s = Failed \<and> error s = Some (message e)" by auto
  from inv obtain evs where j: "journal w = journal w0 @ evs"
    and al: "list_all (allowed Q rid D) evs" and inv_calls: "\<forall>m\<in>D. StageFn rid m \<in> set evs"
    and fl: "\<forall>p. flushed_from p evs"
    by (auto simp: stages_after_def failed_stage_def)
  from s(5) s0 obtain r1 evs2 r2 where
    j1: "journal w1 = journal w @ SaveArticleRun r1 # StageFn rid n # evs2 @ [SaveArticleRun r2]"
    and r1: "run_id r1 = rid" "running_in n r1" and ag: "list_all (\<lambda>e. agent_event e \<and> Q e) evs2"
    and r2: "runs w1 rid = Some r2"
    and o1: "\<forall>m. m \<noteq> n \<longrightarrow> find (\<lambda>s. stage s = m) (stages r1) = stage_of rid w m" by auto
  from inv have old: "\<forall>r m. SaveArticleRun r \<in> set evs \<longrightarrow> m \<notin> D
                        \<longrightarrow> find (\<lambda>s. stage s = m) (stages r) = stage_of rid w0 m"
    and keep: "\<forall>m. m \<notin> D \<longrightarrow> stage_of rid w m = stage_of rid w0 m"
    using j by (auto simp: stages_after_def failed_stage_def)
  have sv: "find (\<lambda>s. stage s = m) (stages r) = stage_of rid w0 m"
    if "SaveArticleRun r \<in> set (evs @ SaveArticleRun r1 # StageFn rid n # evs2 @ [SaveArticleRun r2])"
      and "m \<notin> insert n D" for r m
  proof -
    from that(2) have mn: "m \<noteq> n" and mD: "m \<notin> D" by auto
    from ag have "SaveArticleRun r \<notin> set evs2"
      by (auto simp: list_all_iff agent_event_def)
    with that(1) consider "SaveArticleRun r \<in> set evs" | "r = r1" | "r = r2" by auto
    then show ?thesis
    proof cases
      case 1
      with old mD show ?thesis by blast
    next
      case 2
      with o1 mn keep mD show ?thesis by simp
    next
      case 3
      have "find (\<lambda>s. stage s = m) (stages r2) = stage_of rid w1 m"
        using r2 by (simp add: stage_of_def)
      with 3 s(2)[OF mn] keep mD show ?thesis by simp
    qed
  qed
  have sub: "D \<subseteq> insert n D" "n \<in> insert n D" by auto
  note seg = stage_segment[OF al fl r1 ag sub, of r2]
  have jj: "journal w1 = journal w0 @ (evs @ SaveArticleRun r1 # StageFn rid n # evs2 @ [SaveArticleRun r2])"
    using j j1 by simp
  show "run_part rid w1 = run_part rid w" by (rule s(4))
  show "stages_after Q rid D (Some (n, e)) w0 w1"
    unfolding stages_after_def
  proof (intro conjI)
    show "stored rid w1" by (rule s(1))
    show "stage_names rid w1 = stage_names rid w0"
      using s(7) stages_after_names[OF inv] by simp
    show "\<forall>m. m \<notin> D \<union> failed_stage (Some (n, e)) \<longrightarrow> stage_of rid w1 m = stage_of rid w0 m"
      using s(2) inv by (auto simp: stages_after_def failed_stage_def)
    have "\<forall>m\<in>D. stage_of rid w1 m = stage_of rid w m" using s(2) nD by metis
    moreover have "\<forall>m\<in>D. map_option status (stage_of rid w m) = Some Completed"
      using inv by (simp add: stages_after_def)
    ultimately show "\<forall>m\<in>D. map_option status (stage_of rid w1 m) = Some Completed"
      by simp
    show "\<forall>n' e'. Some (n, e) = Some (n', e') \<longrightarrow>
       (\<exists>s. stage_of rid w1 n' = Some s \<and> status s = Failed \<and> error s = Some (message e'))
       \<and> n' \<notin> D \<and> (\<forall>m\<in>D. pipeline_index m < pipeline_index n')"
      using failed nD before by auto
    show "\<exists>evs. journal w1 = journal w0 @ evs
       \<and> list_all (allowed Q rid (D \<union> failed_stage (Some (n, e)))) evs
       \<and> (\<forall>m\<in>D \<union> failed_stage (Some (n, e)). StageFn rid m \<in> set evs)
       \<and> (\<forall>p. flushed_from p evs)
       \<and> ((evs = [] \<and> runs w1 rid = runs w0 rid)
            \<or> (evs \<noteq> [] \<and> (\<exists>r. last evs = SaveArticleRun r \<and> runs w1 rid = Some r)))
       \<and> (\<forall>r m. SaveArticleRun r \<in> set evs \<longrightarrow> m \<notin> D \<union> failed_stage (Some (n, e))
              \<longrightarrow> find (\<lambda>s. stage s = m) (stages r) = stage_of rid w0 m)"
      using jj seg inv_calls r2 sv
      by (intro exI[of _ "evs @ SaveArticleRun r1 # StageFn rid n # evs2 @ [SaveArticleRun r2]"])
         (simp add: failed_stage_def)
  qed
qed

lemma export_event_simps [simp]:
  "export_event (ExportArticle a f)" "export_event (SaveExport i f c)"
  by (simp_all add: export_event_def)

lemma emits_research: "Q (ConductResearch topic) \<Longrightarrow> emits Q (research_fn co topic)"
  by (simp add: emits_def research_fn_def log_def agent_event_def)

lemma emits_outline: "Q (GenerateOutline topic rr) \<Longrightarrow> emits Q (outline_fn co topic rr)"
  by (simp add: emits_def outline_fn_def log_def agent_event_def)

lemma emits_draft: "Q (GenerateDraft topic ol rr) \<Longrightarrow> emits Q (draft_fn co topic ol rr)"
  by (simp add: emits_def draft_fn_def log_def agent_event_def)

lemma emits_refine: "Q (RefineAndOptimize topic ct cs) \<Longrightarrow> emits Q (refine_fn co topic ct cs)"
  by (simp add: emits_def refine_fn_def log_def agent_event_def)

lemma export_all_journal:
  "runs (snd (export_all ex a fs w)) = runs w
   \<and> (\<exists>evs. journal (snd (export_all ex a fs w)) = journal w @ evs \<and> list_all export_event evs)"
proof (induction fs arbitrary: w)
  case Nil
  then show ?case by simp
next
  case (Cons f fs)
  show ?case
  proof (cases "ex a f")
    case Never
    then show ?thesis by (simp add: log_def)
  next
    case (Settles d r)
    show ?thesis
    proof (cases r)
      case (Inl e)
      with Settles show ?thesis by (simp add: log_def)
    next
      case (Inr c)
      define w2 where "w2 = log (SaveExport (art_id a) f c) (log (ExportArticle a f) w)"
      from Cons.IH[of w2] obtain evs where
        r: "runs (snd (export_all ex a fs w2)) = runs w2"
        and j: "journal (snd (export_all ex a fs w2)) = journal w2 @ evs"
        and l: "list_all export_event evs" by blast
      have j2: "journal w2 = journal w @ [ExportArticle a f, SaveExport (art_id a) f c]"
        and r2: "runs w2 = runs w" by (simp_all add: w2_def log_def)
      have sn: "snd (export_all ex a (f # fs) w) = snd (export_all ex a fs w2)"
        using Settles Inr by (simp add: w2_def split: prod.splits behaviour.splits)
      show ?thesis
        unfolding sn using r j l j2 r2 by simp
    qed
  qed
qed

lemma emits_export_all:
  assumes "\<And>e. export_event e \<Longrightarrow> Q e" "Q (SaveArticle a)"
  shows "runs (snd (export_all ex a fs (saveArticle a w))) = runs w
   \<and> (\<exists>evs. journal (snd (export_all ex a fs (saveArticle a w))) = journal w @ evs
          \<and> list_all (\<lambda>e. agent_event e \<and> Q e) evs)"
proof -
  from export_all_journal[of ex a fs "saveArticle a w"] obtain evs where
    r: "runs (snd (export_all ex a fs (saveArticle a w))) = runs (saveArticle a w)"
    and j: "journal (snd (export_all ex a fs (saveArticle a w))) = journal (saveArticle a w) @ evs"
    and l: "list_all export_event evs" by blast
  have "list_all (\<lambda>e. agent_event e \<and> Q e) evs"
    using l assms(1) by (auto simp: list_all_iff export_event_def agent_event_def split: event.splits)
  then show ?thesis
    using r j assms(2) by (simp add: saveArticle_def log_def agent_event_def)
qed

lemma emits_export:
  assumes "\<And>e. export_event e \<Longrightarrow> Q e" "\<And>a. Q (SaveArticle a)"
  shows "emits Q (export_fn co topic options startTime article)"
proof -
  have "runs (snd (export_fn co topic options startTime article w)) = runs w
        \<and> (\<exists>evs. journal (snd (export_fn co topic options startTime article w)) = journal w @ evs
               \<and> list_all (\<lambda>e. agent_event e \<and> Q e) evs)" for w
  proof (cases "\<not> dryRun options \<and> (case saveOutput options of None \<Rightarrow> True | Some b \<Rightarrow> b)")
    case True
    then show ?thesis
      using emits_export_all[of Q, OF assms(1) assms(2)] by (simp add: export_fn_def Let_def)
  next
    case False
    then show ?thesis
      using assms(2) by (auto simp: export_fn_def Let_def saveArticle_def log_def agent_event_def)
  qed
  then show ?thesis by (simp add: emits_def)
qed

lemma emits_regen_export:
  assumes "\<And>e. export_event e \<Longrightarrow> Q e" "\<And>t. Q (SaveArticle (article\<lparr>art_updated_at := Some t\<rparr>))"
  shows "emits Q (regen_export_fn co topic article)"
  unfolding emits_def regen_export_fn_def Let_def
  using emits_export_all[of Q, OF assms(1) assms(2)] by auto

lemma andThen_ret [simp]: "andThen (ret v) f = f v"
  by (simp add: andThen_def ret_def fun_eq_iff)

lemma andThen_assoc: "andThen (andThen m f) g = andThen m (\<lambda>x. andThen (f x) g)"
  by (auto simp: andThen_def fun_eq_iff split: prod.splits sum.splits)

lemma updateRunStatus_after:
  assumes "stages_after Q rid D F w0 w"
  shows "\<exists>w'. updateRunStatus rid st err w = Inr w' \<and> stages_after Q rid D F w0 w'
           \<and> run_part rid w' = Some (st, err, if st = Run_completed \<or> st = Run_failed
                                               then Some (now w)
                                               else (case run_part rid w of Some (a, b, c) \<Rightarrow> c | None \<Rightarrow> None))
           \<and> articles w' = articles w"
proof -
  from assms obtain r where r: "runs w rid = Some r" "run_id r = rid"
    by (auto simp: stages_after_def stored_def split: option.splits)
  define r' where "r' = (let run1 = r\<lparr>run_status := st, run_error := err, updated_at := Some (now w)\<rparr>
                         in if st = Run_completed \<or> st = Run_failed
                            then run1\<lparr>run_completed_at := Some (now w)\<rparr> else run1)"
  define w' where "w' = saveArticleRun r' w"
  have u: "updateRunStatus rid st err w = Inr w'"
    using r by (simp add: updateRunStatus_def getArticleRun_def w'_def r'_def Let_def)
  have id: "run_id r' = rid" and stg: "stages r' = stages r"
    using r by (simp_all add: r'_def Let_def)
  have rw: "runs w' rid = Some r'" and jw: "journal w' = journal w @ [SaveArticleRun r']"
    using id by (simp_all add: w'_def saveArticleRun_def log_def)
  have so: "stage_of rid w' = stage_of rid w" "stage_names rid w' = stage_names rid w"
    using rw r stg by (simp_all add: stage_of_def stage_names_def fun_eq_iff)
  have stw: "stored rid w'" using rw id by (simp add: stored_def)
  from assms obtain evs where j: "journal w = journal w0 @ evs"
    and al: "list_all (allowed Q rid (D \<union> failed_stage F)) evs"
    and cl: "\<forall>m\<in>D \<union> failed_stage F. StageFn rid m \<in> set evs"
    and fl: "\<forall>p. flushed_from p evs"
    by (auto simp: stages_after_def)
  from assms j have old: "\<forall>r m. SaveArticleRun r \<in> set evs \<longrightarrow> m \<notin> D \<union> failed_stage F
                             \<longrightarrow> find (\<lambda>s. stage s = m) (stages r) = stage_of rid w0 m"
    and keep: "\<forall>m. m \<notin> D \<union> failed_stage F \<longrightarrow> stage_of rid w m = stage_of rid w0 m"
    by (auto simp: stages_after_def)
  have new: "find (\<lambda>s. stage s = m) (stages r') = stage_of rid w0 m"
    if "m \<notin> D \<union> failed_stage F" for m
    using keep that r(1) stg by (simp add: stage_of_def)
  have sv: "\<forall>r2 m. SaveArticleRun r2 \<in> set (evs @ [SaveArticleRun r'])
                  \<longrightarrow> m \<notin> D \<union> failed_stage F
                  \<longrightarrow> find (\<lambda>s. stage s = m) (stages r2) = stage_of rid w0 m"
    using old new by auto
  have "stages_after Q rid D F w0 w'"
    unfolding stages_after_def so
    using assms stw jw j al cl fl rw sv
    by (auto simp: stages_after_def flushed_from_append intro!: exI[of _ "evs @ [SaveArticleRun r']"])
  moreover have "run_part rid w' = Some (st, err, if st = Run_completed \<or> st = Run_failed
                                               then Some (now w)
                                               else (case run_part rid w of Some (a, b, c) \<Rightarrow> c | None \<Rightarrow> None))"
    using rw r by (simp add: run_part_def r'_def Let_def)
  moreover have "articles w' = articles w" by (simp add: w'_def saveArticleRun_def log_def)
  ultimately show ?thesis using u by blast
qed

lemma andThen_stage:
  assumes inv: "stages_after Q rid D None w0 w" and c: "has_all_stages rid w0"
    and q: "emits Q fn" and nD: "n \<notin> D" and before: "\<forall>m\<in>D. pipeline_index m < pipeline_index n"
    and rp: "run_part rid w = run_part rid w0"
    and run: "andThen (executeStage env rid n fn) k w = (res, w')"
  obtains (failed) e where "res = Inl e" "stages_after Q rid D (Some (n, e)) w0 w'"
      "run_part rid w' = run_part rid w0"
  | (continue) v w1 where "stages_after Q rid (insert n D) None w0 w1"
      "run_part rid w1 = run_part rid w0" "k v w1 = (res, w')"
proof -
  obtain r1 w1 where ex: "executeStage env rid n fn w = (r1, w1)" by force
  show thesis
  proof (cases r1)
    case (Inl e)
    with ex run have *: "res = Inl e" "w' = w1" by (simp_all add: andThen_def)
    from ex Inl have ex': "executeStage env rid n fn w = (Inl e, w1)" by simp
    from stage_fail[OF inv c q nD before ex'] rp * failed show thesis by simp
  next
    case (Inr v)
    with ex run have *: "k v w1 = (res, w')" by (simp add: andThen_def)
    from ex Inr have ex': "executeStage env rid n fn w = (Inr v, w1)" by simp
    from stage_ok[OF inv c q nD ex'] rp * continue show thesis by simp
  qed
qed

lemma generation_tail_outcome:
  assumes inv: "stages_after Q rid D None w0 w" and c: "has_all_stages rid w0"
    and rp: "run_part rid w = run_part rid w0"
    and D: "D \<subseteq> {Research}" and Q: "\<And>e. (\<forall>t. e \<noteq> ConductResearch t) \<Longrightarrow> Q e"
    and run: "generation_tail env co aid rid topic opts t0 rr w = (res, w')"
  shows "body_post Q rid D later_stages w0 res w'"
proof -
  define cits where "cits = (case rr of None \<Rightarrow> [] | Some r \<Rightarrow> sources r)"
  note run' = run[unfolded generation_tail_def Let_def, folded cits_def]
  have q1: "emits Q (outline_fn co topic rr)" by (rule emits_outline) (simp add: Q)
  have n1: "Outline \<notin> D" "\<forall>m\<in>D. pipeline_index m < pipeline_index Outline" using D by auto
  from inv c q1 n1 rp run' show ?thesis
  proof (cases rule: andThen_stage)
    case (failed e)
    then show ?thesis by (auto simp: body_post_def later_stages_def)
  next
    case (continue ol w1)
    have q2: "emits Q (draft_fn co topic ol rr)" by (rule emits_draft) (simp add: Q)
    have n2: "Draft \<notin> insert Outline D"
      "\<forall>m\<in>insert Outline D. pipeline_index m < pipeline_index Draft" using D by auto
    from continue(1) c q2 n2 continue(2,3) show ?thesis
    proof (cases rule: andThen_stage)
      case (failed e)
      then show ?thesis by (auto simp: body_post_def later_stages_def)
    next
      case (continue ct w2)
      have q3: "emits Q (refine_fn co topic ct cits)" by (rule emits_refine) (simp add: Q)
      have n3: "Refine \<notin> insert Draft (insert Outline D)"
        "\<forall>m\<in>insert Draft (insert Outline D). pipeline_index m < pipeline_index Refine"
        using D by auto
      from continue(1) c q3 n3 continue(2,3) show ?thesis
      proof (cases rule: andThen_stage)
        case (failed e)
        then show ?thesis by (auto simp: body_post_def later_stages_def)
      next
        case (continue rs w3)
        obtain refinedContent seoMetadata where rs: "rs = (refinedContent, seoMetadata)"
          by (cases rs)
        have q4: "emits Q (export_fn co topic opts t0 a)" for a
          by (rule emits_export) (auto simp: Q export_event_def split: event.splits)
        have n4: "Export \<notin> insert Refine (insert Draft (insert Outline D))"
          "\<forall>m\<in>insert Refine (insert Draft (insert Outline D)).
              pipeline_index m < pipeline_index Export"
          using D by auto
        from continue(1) c q4 n4 continue(2) continue(3)[unfolded rs split_conv]
        show ?thesis
        proof (cases rule: andThen_stage)
          case (failed e)
          then show ?thesis by (auto simp: body_post_def later_stages_def)
        next
          case (continue ex w4)
          from updateRunStatus_after[OF continue(1), of Run_completed None] obtain w5 where
            u: "updateRunStatus rid Run_completed None w4 = Inr w5"
            and i5: "stages_after Q rid (insert Export (insert Refine (insert Draft (insert Outline D)))) None w0 w5"
            and r5: "run_part rid w5 = Some (Run_completed, None, Some (now w4))"
            by auto
          from continue(3) u have "res = Inr ()" "w' = w5" by simp_all
          moreover have "insert Export (insert Refine (insert Draft (insert Outline D)))
                           = D \<union> later_stages" by (auto simp: later_stages_def)
          ultimately show ?thesis using i5 r5 by (auto simp: body_post_def)
        qed
      qed
    qed
  qed
qed

lemma generation_body_outcome:
  assumes st: "stored rid w0" and c: "has_all_stages rid w0"
    and run: "generation_body env co aid rid topic opts t0 w0 = (res, w')"
  defines "go \<equiv> \<not> skipResearch opts \<and> research_enabled topic"
  shows "body_post (research_only_if go) rid {} ((if go then {Research} else {}) \<union> later_stages)
           w0 res w'"
proof -
  let ?Q = "research_only_if go"
  have Q: "?Q e" if "\<forall>t. e \<noteq> ConductResearch t" for e
    using that by (auto simp: research_only_if_def split: event.splits)
  note inv0 = stages_after_refl[OF st, of ?Q]
  show ?thesis
  proof (cases go)
    case False
    then have g: "(\<not> skipResearch opts \<and> research_enabled topic) = False"
      by (simp add: go_def)
    have "generation_tail env co aid rid topic opts t0 None w0 = (res, w')"
      using run unfolding generation_body_def g by simp
    from generation_tail_outcome[OF inv0 c refl _ Q this] False
    show ?thesis by simp
  next
    case True
    then have g: "(\<not> skipResearch opts \<and> research_enabled topic) = True"
      by (simp add: go_def)
    have run': "andThen (executeStage env rid Research (research_fn co topic))
                       (\<lambda>r. generation_tail env co aid rid topic opts t0 (Some r)) w0 = (res, w')"
      using run unfolding generation_body_def g by (simp add: andThen_assoc)
    have q0: "emits ?Q (research_fn co topic)"
      by (rule emits_research) (simp add: research_only_if_def True)
    have n0: "Research \<notin> {}" "\<forall>m\<in>{}. pipeline_index m < pipeline_index Research" by auto
    from inv0 c q0 n0 refl run' show ?thesis
    proof (cases rule: andThen_stage)
      case (failed e)
      then show ?thesis using True by (auto simp: body_post_def)
    next
      case (continue r w1)
      from generation_tail_outcome[OF continue(1) c continue(2) _ Q continue(3)]
      have "body_post ?Q rid {Research} later_stages w0 res w'" by simp
      then obtain D F where sa: "stages_after ?Q rid D F w0 w'"
        and d1: "{Research} \<subseteq> D" and d2: "D \<subseteq> {Research} \<union> later_stages"
        and cs: "case res of
              Inr u \<Rightarrow> F = None \<and> D = {Research} \<union> later_stages
                       \<and> (\<exists>t. run_part rid w' = Some (Run_completed, None, Some t))
            | Inl e \<Rightarrow> (\<exists>n. F = Some (n, e) \<and> n \<in> later_stages) \<and> run_part rid w' = run_part rid w0"
        by (auto simp: body_post_def)
      have "case res of
              Inr u \<Rightarrow> F = None \<and> D = {} \<union> ({Research} \<union> later_stages)
                       \<and> (\<exists>t. run_part rid w' = Some (Run_completed, None, Some t))
            | Inl e \<Rightarrow> (\<exists>n. F = Some (n, e) \<and> n \<in> {Research} \<union> later_stages)
                       \<and> run_part rid w' = run_part rid w0"
        using cs by (cases res) auto
      with sa d2 True show ?thesis
        unfolding body_post_def by (intro exI[of _ D] exI[of _ F]) simp
    qed
  qed
qed

lemma run_catch_outcome:
  assumes bp: "body_post Q rid {} P w0 res w1" and rc: "run_catch rid (res, w1) = (p, wz)"
  shows "run_post Q rid P w0 p wz"
proof -
  from bp obtain D F where sa: "stages_after Q rid D F w0 w1" and d: "D \<subseteq> P"
    and cs: "case res of
              Inr u \<Rightarrow> F = None \<and> D = {} \<union> P
                       \<and> (\<exists>t. run_part rid w1 = Some (Run_completed, None, Some t))
            | Inl e \<Rightarrow> (\<exists>n. F = Some (n, e) \<and> n \<in> P) \<and> run_part rid w1 = run_part rid w0"
    by (auto simp: body_post_def)
  show ?thesis
  proof (cases res)
    case (Inr u)
    with rc have "p = Fulfilled" "wz = w1" by (simp_all add: run_catch_def)
    with sa d cs Inr show ?thesis
      unfolding run_post_def by (intro exI[of _ D] exI[of _ F]) simp
  next
    case (Inl e)
    from updateRunStatus_after[OF sa, of Run_failed "Some (message e)"] obtain w2 where
      u: "updateRunStatus rid Run_failed (Some (message e)) w1 = Inr w2"
      and s2: "stages_after Q rid D F w0 w2"
      and r2: "run_part rid w2 = Some (Run_failed, Some (message e), Some (now w1))" by auto
    from rc Inl u have "p = Rejected e" "wz = w2" by (simp_all add: run_catch_def)
    with s2 r2 d cs Inl show ?thesis
      unfolding run_post_def by (intro exI[of _ D] exI[of _ F]) simp
  qed
qed

lemma executeGeneration_outcome:
  assumes st: "stored rid w0" and c: "has_all_stages rid w0"
    and run: "executeGeneration env co aid rid topic opts w0 = (p, wz)"
  defines "go \<equiv> \<not> skipResearch opts \<and> research_enabled topic"
  shows "run_post (research_only_if go) rid ((if go then {Research} else {}) \<union> later_stages) w0 p wz"
proof -
  obtain res w1 where b: "generation_body env co aid rid topic opts (now w0) w0 = (res, w1)"
    by force
  from generation_body_outcome[OF st c b] run b show ?thesis
    unfolding go_def executeGeneration_def by (intro run_catch_outcome) simp_all
qed

text \<open>When every stage function is in time, the stages from the outline on all return.\<close>

lemma generation_tail_in_time:
  assumes st: "stored rid w"
    and o: "in_time (timer env) (generateOutline co topic rr)"
    and d: "\<And>ol. in_time (timer env) (generateDraft co topic ol rr)"
    and r: "\<And>ct cs. in_time (timer env) (refineAndOptimize co topic ct cs)"
    and x: "\<And>a w'. in_time (timer env) (fst (export_fn co topic opts t0 a w'))"
  shows "\<exists>w'. generation_tail env co aid rid topic opts t0 rr w = (Inr (), w')"
proof -
  let ?T = "\<lambda>e::event. True"
  have q1: "emits ?T (outline_fn co topic rr)" by (rule emits_outline) simp
  have b1: "in_time (timer env) (fst (outline_fn co topic rr (call_world rid Outline w)))"
    by (simp add: outline_fn_def o)
  from executeStage_in_time[OF st q1 b1] obtain ol w1 where
    e1: "executeStage env rid Outline (outline_fn co topic rr) w = (Inr ol, w1)"
    and s1: "stored rid w1" by blast
  have q2: "emits ?T (draft_fn co topic ol rr)" by (rule emits_draft) simp
  have b2: "in_time (timer env) (fst (draft_fn co topic ol rr (call_world rid Draft w1)))"
    by (simp add: draft_fn_def d)
  from executeStage_in_time[OF s1 q2 b2] obtain ct w2 where
    e2: "executeStage env rid Draft (draft_fn co topic ol rr) w1 = (Inr ct, w2)"
    and s2: "stored rid w2" by blast
  define cits where "cits = (case rr of None \<Rightarrow> [] | Some r \<Rightarrow> sources r)"
  have q3: "emits ?T (refine_fn co topic ct cits)" by (rule emits_refine) simp
  have b3: "in_time (timer env) (fst (refine_fn co topic ct cits (call_world rid Refine w2)))"
    by (simp add: refine_fn_def r)
  from executeStage_in_time[OF s2 q3 b3] obtain rs w3 where
    e3: "executeStage env rid Refine (refine_fn co topic ct cits) w2 = (Inr rs, w3)"
    and s3: "stored rid w3" by blast
  obtain refinedContent seoMetadata where rs: "rs = (refinedContent, seoMetadata)" by (cases rs)
  define art where "art = \<lparr>art_id = aid, art_topic_id = cfg_id topic,
                              art_topic_version = cfg_version topic, art_status = Art_draft,
                              outline = ol, content = refinedContent, seo = seoMetadata,
                              citations = cits, metadata = None,
                              art_created_at = t0, art_updated_at = None\<rparr>"
  have q4: "emits ?T (export_fn co topic opts t0 art)" by (rule emits_export) simp_all
  from executeStage_in_time[OF s3 q4 x] obtain ex w4 where
    e4: "executeStage env rid Export (export_fn co topic opts t0 art) w3 = (Inr ex, w4)"
    and s4: "stored rid w4" by blast
  from updateRunStatus_stored[OF s4, of Run_completed None] obtain w5 where
    u: "updateRunStatus rid Run_completed None w4 = Inr w5" by blast
  have "generation_tail env co aid rid topic opts t0 rr w = (Inr (), w5)"
    using e1 e2 e3[unfolded rs] e4[unfolded art_def] u
    by (simp add: generation_tail_def Let_def andThen_def cits_def[symmetric])
  then show ?thesis by blast
qed

lemma new_events_append: "journal w' = journal w @ evs \<Longrightarrow> new_events w w' = evs"
  by (simp add: new_events_def)

lemma generateArticle_started:
  assumes "generateArticle env co ld rid aid topicId version opts w = (Inr h, w1)"
  shows "\<exists>topic. loadTopic ld topicId version = Inr topic
           \<and> h = start_background rid (executeGeneration env co aid rid topic opts w1)
           \<and> stored rid w1 \<and> has_all_stages rid w1
           \<and> stage_names rid w1 = [Research, Outline, Draft, Refine, Export]
           \<and> (\<forall>n. stage_of rid w1 n
                  = Some (stage_record n (if n = Research \<and> skipResearch opts then Cancelled else Pending)))
           \<and> (\<exists>r. journal w1 = journal w @ [SaveArticleRun r] \<and> runs w1 rid = Some r)"
proof -
  from assms obtain topic where t: "loadTopic ld topicId version = Inr topic"
    by (auto simp: generateArticle_def split: sum.splits)
  have so: "stage_of rid w1 n
            = Some (stage_record n (if n = Research \<and> skipResearch opts then Cancelled else Pending))"
    for n
    using assms t
    by (cases n) (auto simp: generateArticle_def Let_def saveArticleRun_def log_def stage_of_def
        initial_stages_def stage_record_def)
  then have "has_all_stages rid w1" by (simp add: has_all_stages_def)
  with so assms t show ?thesis
    by (auto simp: generateArticle_def Let_def saveArticleRun_def log_def stored_def
        stage_names_def initial_stages_def)
qed

lemma andThen_maybe_stage:
  assumes inv: "stages_after Q rid D None w0 w" and c: "has_all_stages rid w0"
    and q: "req \<longrightarrow> emits Q fn" and nD: "n \<notin> D"
    and before: "\<forall>m\<in>D. pipeline_index m < pipeline_index n"
    and rp: "run_part rid w = run_part rid w0"
    and run: "andThen (if req then executeStage env rid n fn else ret x) k w = (res, w')"
  obtains (failed) e where "req" "res = Inl e" "stages_after Q rid D (Some (n, e)) w0 w'"
      "run_part rid w' = run_part rid w0"
  | (continue) v w1 where "stages_after Q rid (if req then insert n D else D) None w0 w1"
      "run_part rid w1 = run_part rid w0" "k v w1 = (res, w')" "\<not> req \<Longrightarrow> v = x"
proof (cases req)
  case True
  with run have run': "andThen (executeStage env rid n fn) k w = (res, w')" by simp
  from q True have q': "emits Q fn" by simp
  from inv c q' nD before rp run' show thesis
  proof (cases rule: andThen_stage)
    case (failed e)
    with True show ?thesis by (intro that(1)) auto
  next
    case (continue v w1)
    with True show ?thesis by (intro that(2)[of w1 v]) auto
  qed
next
  case False
  with run have "k x w = (res, w')" by simp
  with False inv rp show thesis by (intro that(2)[of w x]) auto
qed

lemma regeneration_tail_outcome:
  assumes inv: "stages_after Q rid D None w0 w" and c: "has_all_stages rid w0"
    and rp: "run_part rid w = run_part rid w0"
    and Q: "Q = regen_events topic a stgs"
    and D: "D = (if ''research'' \<in> set stgs \<and> research_enabled topic then {Research} else {})"
    and src: "\<not> (''research'' \<in> set stgs \<and> research_enabled topic) \<Longrightarrow> sources rr = citations a"
    and run: "regeneration_tail env co rid topic a stgs rr w = (res, w')"
  shows "body_post Q rid {} (requested topic stgs) w0 res w'"
proof -
  define ran where "ran = (''research'' \<in> set stgs \<and> research_enabled topic)"
  define a1 where "a1 = a\<lparr>citations := sources rr\<rparr>"
  have DR: "D \<subseteq> {Research}" using D by auto
  have DP: "D \<subseteq> requested topic stgs" using D by (auto simp: requested_def)
  have sub: "S \<subseteq> requested topic stgs"
    if "S \<subseteq> D \<union> {n \<in> later_stages. stage_label n \<in> set stgs}" for S
    using that DP by (auto simp: requested_def later_stages_def)
  have fin: "body_post Q rid {} (requested topic stgs) w0 (Inl e) w'"
    if "stages_after Q rid S (Some (n, e)) w0 w'" "run_part rid w' = run_part rid w0"
      "S \<subseteq> D \<union> {n \<in> later_stages. stage_label n \<in> set stgs}" "n \<in> later_stages"
      "stage_label n \<in> set stgs" for S n e
    using that sub[OF that(3)] unfolding body_post_def
    by (intro exI[of _ S] exI[of _ "Some (n, e)"]) (auto simp: requested_def later_stages_def)
  note run' = run[unfolded regeneration_tail_def Let_def, folded a1_def]
  have "emits Q (outline_fn co topic (Some rr))" if "''outline'' \<in> set stgs"
    by (rule emits_outline) (use that src in \<open>simp add: Q regen_events_def\<close>)
  then have q1: "''outline'' \<in> set stgs \<longrightarrow> emits Q (outline_fn co topic (Some rr))" by blast
  have n1: "Outline \<notin> D" "\<forall>m\<in>D. pipeline_index m < pipeline_index Outline" using DR by auto
  show ?thesis
  proof (rule andThen_maybe_stage[OF inv c q1 n1 rp run'], goal_cases)
    case (1 e)
    then show ?thesis using fin[of D Outline e] by (auto simp: later_stages_def)
  next
    case continue: (2 ol w1)
    define D1 where "D1 = (if ''outline'' \<in> set stgs then insert Outline D else D)"
    note i1 = continue(1)[folded D1_def]
    have ol: "''outline'' \<notin> set stgs \<Longrightarrow> ol = outline a"
      using continue(4) by (simp add: a1_def)
    have "emits Q (draft_fn co topic ol (Some rr))" if "''draft'' \<in> set stgs"
      by (rule emits_draft) (use that ol in \<open>simp add: Q regen_events_def\<close>)
    then have q2: "''draft'' \<in> set stgs \<longrightarrow> emits Q (draft_fn co topic ol (Some rr))" by blast
    have n2: "Draft \<notin> D1" "\<forall>m\<in>D1. pipeline_index m < pipeline_index Draft"
      using DR by (auto simp: D1_def)
    show ?thesis
    proof (rule andThen_maybe_stage[OF i1 c q2 n2 continue(2,3)], goal_cases)
      case (1 e)
      then show ?thesis using fin[of D1 Draft e] by (auto simp: later_stages_def D1_def)
    next
      case continue: (2 ct w2)
      define D2 where "D2 = (if ''draft'' \<in> set stgs then insert Draft D1 else D1)"
      note i2 = continue(1)[folded D2_def]
      have ct: "''draft'' \<notin> set stgs \<Longrightarrow> ct = content a"
        using continue(4) by (simp add: a1_def)
      have "emits Q (refine_fn co topic ct (citations (a1\<lparr>outline := ol, content := ct\<rparr>)))"
        if "''refine'' \<in> set stgs"
        by (rule emits_refine) (use that ct src in \<open>simp add: Q regen_events_def a1_def\<close>)
      then have q3: "''refine'' \<in> set stgs
          \<longrightarrow> emits Q (refine_fn co topic ct (citations (a1\<lparr>outline := ol, content := ct\<rparr>)))"
        by blast
      have n3: "Refine \<notin> D2" "\<forall>m\<in>D2. pipeline_index m < pipeline_index Refine"
        using DR by (auto simp: D1_def D2_def)
      show ?thesis
      proof (rule andThen_maybe_stage[OF i2 c q3 n3 continue(2,3)], goal_cases)
        case (1 e)
        then show ?thesis using fin[of D2 Refine e] by (auto simp: later_stages_def D1_def D2_def)
      next
        case continue: (2 rs w3)
        define D3 where "D3 = (if ''refine'' \<in> set stgs then insert Refine D2 else D2)"
        note i3 = continue(1)[folded D3_def]
        obtain refinedContent seoMetadata where rs: "rs = (refinedContent, seoMetadata)"
          by (cases rs)
        have rc: "''refine'' \<notin> set stgs \<Longrightarrow> refinedContent = ct \<and> seoMetadata = seo a"
          using continue(4) rs by (simp add: a1_def)
        define a4 where "a4 = a1\<lparr>outline := ol, content := ct, content := refinedContent, seo := seoMetadata\<rparr>"
        have "emits Q (regen_export_fn co topic a4)" if "''export'' \<in> set stgs"
          by (rule emits_regen_export)
             (use that ol ct rc src in \<open>auto simp: Q regen_events_def a1_def a4_def export_event_def
                 split: event.splits\<close>)
        then have q4: "''export'' \<in> set stgs \<longrightarrow> emits Q (regen_export_fn co topic a4)" by blast
        have n4: "Export \<notin> D3" "\<forall>m\<in>D3. pipeline_index m < pipeline_index Export"
          using DR by (auto simp: D1_def D2_def D3_def)
        show ?thesis
        proof (rule andThen_maybe_stage[OF i3 c q4 n4 continue(2)
                 continue(3)[unfolded rs split_conv, folded a4_def]], goal_cases)
          case (1 e)
          then show ?thesis
            using fin[of D3 Export e] by (auto simp: later_stages_def D1_def D2_def D3_def)
        next
          case continue: (2 ex w4)
          define D4 where "D4 = (if ''export'' \<in> set stgs then insert Export D3 else D3)"
          note i4 = continue(1)[folded D4_def]
          from updateRunStatus_after[OF i4, of Run_completed None] obtain w5 where
            u: "updateRunStatus rid Run_completed None w4 = Inr w5"
            and i5: "stages_after Q rid D4 None w0 w5"
            and r5: "run_part rid w5 = Some (Run_completed, None, Some (now w4))"
            by auto
          from continue(3) u have "res = Inr ()" "w' = w5" by simp_all
          moreover have "D4 = requested topic stgs"
          proof
            show "D4 \<subseteq> requested topic stgs"
              using D by (auto simp: D4_def D3_def D2_def D1_def requested_def split: if_splits)
            show "requested topic stgs \<subseteq> D4"
            proof
              fix n assume "n \<in> requested topic stgs"
              then show "n \<in> D4"
                using D by (cases n) (auto simp: D4_def D3_def D2_def D1_def requested_def)
            qed
          qed
          ultimately show ?thesis
            using i5 r5 unfolding body_post_def
            by (intro exI[of _ D4] exI[of _ None]) simp
        qed
      qed
    qed
  qed
qed

lemma regeneration_body_outcome:
  assumes st: "stored rid w0" and c: "has_all_stages rid w0"
    and run: "regeneration_body env co rid topic a stgs w0 = (res, w')"
  shows "body_post (regen_events topic a stgs) rid {} (requested topic stgs) w0 res w'"
proof -
  let ?Q = "regen_events topic a stgs"
  note inv0 = stages_after_refl[OF st, of ?Q]
  show ?thesis
  proof (cases "''research'' \<in> set stgs \<and> research_enabled topic")
    case False
    define rr where "rr = \<lparr>query = title topic @ '' research'', sources = citations a,
                            summary = [], key_points = [], retrieved_at = now w0\<rparr>"
    from False have g: "(''research'' \<in> set stgs \<and> research_enabled topic) = False" by simp
    have run': "regeneration_tail env co rid topic a stgs rr w0 = (res, w')"
      using run unfolding regeneration_body_def g by (simp add: andThen_def rr_def)
    have src: "sources rr = citations a" by (simp add: rr_def)
    from False have D0: "{} = (if ''research'' \<in> set stgs \<and> research_enabled topic
                                then {Research} else {})" by simp
    from regeneration_tail_outcome[OF inv0 c refl refl D0 src run'] show ?thesis .
  next
    case True
    then have g: "(''research'' \<in> set stgs \<and> research_enabled topic) = True" by simp
    have run': "andThen (executeStage env rid Research (research_fn co topic))
                  (regeneration_tail env co rid topic a stgs) w0 = (res, w')"
      using run unfolding regeneration_body_def g by simp
    have q0: "emits ?Q (research_fn co topic)"
      by (rule emits_research) (use True in \<open>simp add: regen_events_def\<close>)
    have n0: "Research \<notin> {}" "\<forall>m\<in>{}. pipeline_index m < pipeline_index Research" by auto
    from inv0 c q0 n0 refl run' show ?thesis
    proof (cases rule: andThen_stage)
      case (failed e)
      with True show ?thesis
        unfolding body_post_def
        by (intro exI[of _ "{}"] exI[of _ "Some (Research, e)"]) (simp add: requested_def)
    next
      case (continue r w1)
      from True have D1: "insert Research {} = (if ''research'' \<in> set stgs \<and> research_enabled topic
                                then {Research} else {})" by simp
      from regeneration_tail_outcome[OF continue(1) c continue(2) refl D1 _ continue(3)] True
      show ?thesis by simp
    qed
  qed
qed

lemma executeRegeneration_outcome:
  assumes st: "stored rid w0" and c: "has_all_stages rid w0"
    and run: "executeRegeneration env co rid topic a stgs w0 = (p, wz)"
  shows "run_post (regen_events topic a stgs) rid (requested topic stgs) w0 p wz"
proof -
  obtain res w1 where b: "regeneration_body env co rid topic a stgs w0 = (res, w1)"
    by force
  from regeneration_body_outcome[OF st c b] run b show ?thesis
    unfolding executeRegeneration_def by (intro run_catch_outcome) simp_all
qed

lemma regenerateArticle_started:
  assumes "regenerateArticle env co ld rid aid topicId version stgs w = (Inr h, w1)"
  defines "stagesToRun \<equiv> (case stgs of None \<Rightarrow> [''refine'', ''export''] | Some l \<Rightarrow> l)"
  shows "\<exists>topic a. loadTopic ld topicId version = Inr topic \<and> articles w aid = Some a
           \<and> h = start_background rid (executeRegeneration env co rid topic a stagesToRun w1)
           \<and> stored rid w1 \<and> has_all_stages rid w1
           \<and> stage_names rid w1 = [Research, Outline, Draft, Refine, Export]
           \<and> (\<forall>n. stage_of rid w1 n
                  = Some (stage_record n (if stage_label n \<in> set stagesToRun then Pending else Cancelled)))
           \<and> (\<exists>r. journal w1 = journal w @ [SaveArticleRun r] \<and> runs w1 rid = Some r)"
proof -
  from assms(1) obtain topic where t: "loadTopic ld topicId version = Inr topic"
    by (auto simp: regenerateArticle_def split: sum.splits)
  from assms(1) t obtain a where a: "articles w aid = Some a"
    by (auto simp: regenerateArticle_def getArticle_def split: option.splits)
  from assms(1) t a have "\<exists>run0. w1 = saveArticleRun run0 w \<and> run_id run0 = rid
        \<and> stages run0 = initial_stages (\<lambda>n. if stage_label n \<in> set stagesToRun then Pending else Cancelled)
        \<and> h = start_background rid (executeRegeneration env co rid topic a stagesToRun w1)"
    by (auto simp: regenerateArticle_def getArticle_def Let_def stagesToRun_def)
  then obtain run0 where w1: "w1 = saveArticleRun run0 w" and id0: "run_id run0 = rid"
    and st0: "stages run0 = initial_stages (\<lambda>n. if stage_label n \<in> set stagesToRun then Pending else Cancelled)"
    and h: "h = start_background rid (executeRegeneration env co rid topic a stagesToRun w1)"
    by blast
  have r1: "runs w1 rid = Some run0" using w1 id0 by (simp add: saveArticleRun_def log_def)
  have so: "stage_of rid w1 n
            = Some (stage_record n (if stage_label n \<in> set stagesToRun then Pending else Cancelled))"
    for n
    using r1 st0 by (cases n) (simp_all add: stage_of_def initial_stages_def stage_record_def)
  then have "has_all_stages rid w1" by (simp add: has_all_stages_def)
  moreover have "stored rid w1" "stage_names rid w1 = [Research, Outline, Draft, Refine, Export]"
    "\<exists>r. journal w1 = journal w @ [SaveArticleRun r] \<and> runs w1 rid = Some r"
    using r1 id0 st0 w1
    by (simp_all add: stored_def stage_names_def initial_stages_def saveArticleRun_def log_def)
  ultimately show ?thesis using so t a h by blast
qed

lemma flushed_from_nth:
  assumes "flushed_from p evs" "i < length evs" "evs ! i = StageFn rid n"
  shows "\<exists>r. (if i = 0 then p else Some (evs ! (i - 1))) = Some (SaveArticleRun r)
           \<and> run_id r = rid \<and> running_in n r"
  using assms
proof (induction evs arbitrary: p i)
  case Nil
  then show ?case by simp
next
  case (Cons e es)
  show ?case
  proof (cases i)
    case 0
    with Cons.prems show ?thesis
      by (auto simp: flush_ok_def split: option.splits event.splits)
  next
    case (Suc k)
    with Cons.prems have "flushed_from (Some e) es" "k < length es" "es ! k = StageFn rid n"
      by simp_all
    from Cons.IH[OF this] Suc show ?thesis by (cases k) auto
  qed
qed

lemma start_run_outcome:
  assumes "start_run env co ld rid aid req w = (Inr h, w1)"
  shows "\<exists>Q P init. stored rid w1
           \<and> (\<forall>n. stage_of rid w1 n = Some (stage_record n (init n)))
           \<and> (\<forall>n. init n = Pending \<or> init n = Cancelled)
           \<and> ((\<exists>t v opts. req = Generate t v opts) \<longrightarrow> (\<forall>n. n \<noteq> Research \<longrightarrow> init n = Pending))
           \<and> (\<exists>r. journal w1 = journal w @ [SaveArticleRun r] \<and> runs w1 rid = Some r)
           \<and> run_post Q rid P w1 (fst (generationPromise h)) (snd (generationPromise h))"
proof (cases req)
  case (Generate topicId version opts)
  with assms have g: "generateArticle env co ld rid aid topicId version opts w = (Inr h, w1)"
    by (simp add: start_run_def)
  from generateArticle_started[OF g] obtain topic r where
    h: "h = start_background rid (executeGeneration env co aid rid topic opts w1)"
    and st: "stored rid w1" and c: "has_all_stages rid w1"
    and init: "\<forall>n. stage_of rid w1 n
                  = Some (stage_record n (if n = Research \<and> skipResearch opts then Cancelled else Pending))"
    and j: "journal w1 = journal w @ [SaveArticleRun r]" "runs w1 rid = Some r"
    by blast
  have run: "executeGeneration env co aid rid topic opts w1
               = (fst (generationPromise h), snd (generationPromise h))"
    by (simp add: h start_background_def)
  from executeGeneration_outcome[OF st c run] st init j Generate show ?thesis
    by (intro exI[of _ "research_only_if (\<not> skipResearch opts \<and> research_enabled topic)"]
              exI[of _ "(if \<not> skipResearch opts \<and> research_enabled topic then {Research} else {}) \<union> later_stages"]
              exI[of _ "\<lambda>n. if n = Research \<and> skipResearch opts then Cancelled else Pending"]) auto
next
  case (Regenerate articleId topicId version stgs)
  with assms have g: "regenerateArticle env co ld rid articleId topicId version stgs w = (Inr h, w1)"
    by (simp add: start_run_def)
  define stagesToRun where "stagesToRun = (case stgs of None \<Rightarrow> [''refine'', ''export''] | Some l \<Rightarrow> l)"
  from regenerateArticle_started[OF g, folded stagesToRun_def] obtain topic a r where
    h: "h = start_background rid (executeRegeneration env co rid topic a stagesToRun w1)"
    and st: "stored rid w1" and c: "has_all_stages rid w1"
    and init: "\<forall>n. stage_of rid w1 n
                  = Some (stage_record n (if stage_label n \<in> set stagesToRun then Pending else Cancelled))"
    and j: "journal w1 = journal w @ [SaveArticleRun r]" "runs w1 rid = Some r"
    by blast
  have run: "executeRegeneration env co rid topic a stagesToRun w1
               = (fst (generationPromise h), snd (generationPromise h))"
    by (simp add: h start_background_def)
  from executeRegeneration_outcome[OF st c run] st init j Regenerate show ?thesis
    by (intro exI[of _ "regen_events topic a stagesToRun"]
              exI[of _ "requested topic stagesToRun"]
              exI[of _ "\<lambda>n. if stage_label n \<in> set stagesToRun then Pending else Cancelled"]) auto
qed

section \<open>Evaluation of the concrete runs\<close>

lemma load_demo: "loadTopic demo_loader ''t1'' ''1.0.0'' = Inr demo_topic"
  by (simp add: loadTopic_def fetch_topic_data_def demo_loader_def loadTopicFromFile_def validateTopicConfig_def
      demo_raw_def matches_semver_def matches_length_def digits1_def is_digit_def parse_format_def
      demo_topic_def)

lemmas run_defs =
  Let_def initial_stages_def
  start_background_def executeGeneration_def generation_body_def generation_tail_def
  andThen_def ret_def executeStage_def updateStageStatus_def getArticleRun_def
  saveArticleRun_def log_def empty_world_def demo_topic_def set_stage_def stage_timeout_def
  setTimeout_delay_def
  research_fn_def outline_fn_def draft_fn_def refine_fn_def export_fn_def
  saveArticle_def run_catch_def updateRunStatus_def stage_failed_def
  finally_promise_def unobserved_rejection_def stage_status_def stage_of_def timeout_error_def

lemma rate_limited_started:
  "start_run default_config rate_limited_agents demo_loader ''r1'' ''a1''
       (Generate ''t1'' ''1.0.0'' plain_options) empty_world
   = (Inr rate_limited_handle, snd rate_limited_start)"
  by (simp add: rate_limited_handle_def rate_limited_start_def start_run_def generateArticle_def
      load_demo Let_def)

lemma rate_limited_outcome:
  "unhandledRejection rate_limited_handle = Some (Error ''rate limited'')"
  "stage_status ''r1'' rate_limited_final Draft = Some Failed"
  "map_option (\<lambda>r. (run_status r, run_error r)) (runs rate_limited_final ''r1'')
   = Some (Run_failed, Some ''rate limited'')"
  by (simp_all add: rate_limited_final_def rate_limited_handle_def
      rate_limited_start_def start_run_def generateArticle_def load_demo run_defs
      plain_options_def default_config_def rate_limited_agents_def good_agents_def)

lemma rate_limited_journal:
  "2 < length (new_events empty_world rate_limited_final)"
  "new_events empty_world rate_limited_final ! 2 = StageFn ''r1'' Research"
  by (simp_all add: new_events_def rate_limited_final_def rate_limited_handle_def
      rate_limited_start_def start_run_def generateArticle_def load_demo run_defs
      plain_options_def default_config_def rate_limited_agents_def good_agents_def)

lemma export_failed_started:
  "start_run default_config export_failing_agents demo_loader ''r1'' ''a1''
       (Generate ''t1'' ''1.0.0'' plain_options) empty_world
   = (Inr export_failed_handle, snd export_failed_start)"
  by (simp add: export_failed_handle_def export_failed_start_def start_run_def generateArticle_def
      load_demo Let_def)

lemma export_failed_outcome:
  "stage_status ''r1'' export_failed_final Export = Some Failed"
  by (simp add: export_failed_final_def export_failed_handle_def
      export_failed_start_def start_run_def generateArticle_def load_demo run_defs
      plain_options_def default_config_def export_failing_agents_def good_agents_def)

lemma skipped_started:
  "generateArticle default_config good_agents demo_loader ''r1'' ''a1'' ''t1'' ''1.0.0''
       skip_options empty_world
   = (Inr skipped_handle, snd skipped_start)"
  by (simp add: skipped_handle_def skipped_start_def generateArticle_def load_demo Let_def)

lemma skipped_outcome:
  "fst (generationPromise skipped_handle) = Fulfilled"
  "map_option (\<lambda>r. (run_status r, map status (stages r))) (runs skipped_final ''r1'')
   = Some (Run_completed, [Cancelled, Completed, Completed, Completed, Completed])"
  by (simp_all add: skipped_final_def skipped_handle_def
      skipped_start_def generateArticle_def load_demo run_defs
      skip_options_def default_config_def good_agents_def)

lemma regen_started:
  "regenerateArticle default_config good_agents demo_loader ''r2'' ''a0'' ''t1'' ''1.0.0''
       None library_world
   = (Inr regen_handle, snd regen_start)"
  by (simp add: regen_handle_def regen_start_def regenerateArticle_def load_demo Let_def
      getArticle_def library_world_def)

section \<open>A failed stage halts the pipeline\<close>

text \<open>
  C1. For every run, started as a generation or as a regeneration: if the stored record
  of the finished run shows stage \<open>k\<close> as failed (an exception of the stage function or
  the timeout), then the background promise rejected and the stored run is failed with
  the error message of the failed stage and a completion time; and every stage \<open>j\<close> after
  \<open>k\<close> in pipeline order still has the stage record it was created with (pending, or
  cancelled for a stage a regeneration did not request; pending for every such stage of a
  generation), every run record saved during the run shows it with that same stage
  record, so it never left that state, and its stage function was never called. The first
  part holds for the last stage as well, which no stage follows.
\<close>

theorem failure_halts_pipeline:
  assumes start: "start_run env co ld runId articleId req w = (Inr h, w1)"
    and failed: "stage_status runId (snd (generationPromise h)) k = Some Failed"
  shows "(\<exists>e r. fst (generationPromise h) = Rejected e
              \<and> map_option error (stage_of runId (snd (generationPromise h)) k) = Some (Some (message e))
              \<and> runs (snd (generationPromise h)) runId = Some r
              \<and> run_status r = Run_failed \<and> run_error r = Some (message e)
              \<and> run_completed_at r \<noteq> None)
       \<and> (\<forall>j. pipeline_index k < pipeline_index j \<longrightarrow>
             stage_of runId (snd (generationPromise h)) j = stage_of runId w1 j
             \<and> (stage_status runId (snd (generationPromise h)) j = Some Pending
                  \<or> stage_status runId (snd (generationPromise h)) j = Some Cancelled)
             \<and> ((\<exists>t v opts. req = Generate t v opts)
                   \<longrightarrow> stage_status runId (snd (generationPromise h)) j = Some Pending)
             \<and> (\<forall>r. SaveArticleRun r \<in> set (new_events w1 (snd (generationPromise h)))
                    \<longrightarrow> find (\<lambda>s. stage s = j) (stages r) = stage_of runId w1 j)
             \<and> StageFn runId j \<notin> set (new_events w1 (snd (generationPromise h))))"
proof -
  define p where "p = fst (generationPromise h)"
  define wz where "wz = snd (generationPromise h)"
  from start_run_outcome[OF start] obtain Q P init where
    init: "\<And>n. stage_of runId w1 n = Some (stage_record n (init n))"
    and pc: "\<And>n. init n = Pending \<or> init n = Cancelled"
    and gen: "(\<exists>t v opts. req = Generate t v opts) \<longrightarrow> (\<forall>n. n \<noteq> Research \<longrightarrow> init n = Pending)"
    and rp: "run_post Q runId P w1 p wz"
    unfolding p_def wz_def by blast
  from rp obtain D F where
    sa: "stages_after Q runId D F w1 wz"
    and cs: "case p of
              Fulfilled \<Rightarrow> F = None \<and> D = P
                       \<and> (\<exists>t. run_part runId wz = Some (Run_completed, None, Some t))
            | Rejected e \<Rightarrow> (\<exists>n. F = Some (n, e) \<and> n \<in> P)
                       \<and> (\<exists>t. run_part runId wz = Some (Run_failed, Some (message e), Some t))"
    unfolding run_post_def by blast
  have fk: "stage_status runId wz k = Some Failed" using failed by (simp add: wz_def)
  have same: "stage_of runId wz m = stage_of runId w1 m" if "m \<notin> D \<union> failed_stage F" for m
    using sa that by (simp add: stages_after_def)
  have compl: "stage_status runId wz m = Some Completed" if "m \<in> D" for m
    using sa that by (simp add: stages_after_def stage_status_def)
  have kF: "k \<in> failed_stage F"
  proof (rule ccontr)
    assume nk: "k \<notin> failed_stage F"
    show False
    proof (cases "k \<in> D")
      case True
      from compl[OF True] fk show False by simp
    next
      case False
      with nk same[of k] init[of k] fk pc[of k] show False
        by (auto simp: stage_status_def stage_record_def)
    qed
  qed
  then obtain e where F: "F = Some (k, e)"
    by (auto simp: failed_stage_def split: option.splits)
  from sa F have kfacts: "\<exists>s. stage_of runId wz k = Some s \<and> status s = Failed \<and> error s = Some (message e)"
    and before: "\<forall>m\<in>D. pipeline_index m < pipeline_index k"
    by (auto simp: stages_after_def)
  from sa obtain evs where j: "journal wz = journal w1 @ evs"
    and al: "list_all (allowed Q runId (D \<union> failed_stage F)) evs"
    and sv: "\<forall>r m. SaveArticleRun r \<in> set evs \<longrightarrow> m \<notin> D \<union> failed_stage F
               \<longrightarrow> find (\<lambda>s. stage s = m) (stages r) = stage_of runId w1 m"
    by (auto simp: stages_after_def)
  have run_failed: "\<exists>e r. p = Rejected e
              \<and> map_option error (stage_of runId wz k) = Some (Some (message e))
              \<and> runs wz runId = Some r
              \<and> run_status r = Run_failed \<and> run_error r = Some (message e)
              \<and> run_completed_at r \<noteq> None"
  proof (cases p)
    case Fulfilled
    with cs F show ?thesis by simp
  next
    case (Rejected e')
    with cs F have "e' = e" and "\<exists>t. run_part runId wz = Some (Run_failed, Some (message e'), Some t)"
      by auto
    with kfacts Rejected show ?thesis by (auto simp: run_part_def)
  qed
  have halted: "stage_of runId wz j = stage_of runId w1 j
             \<and> (stage_status runId wz j = Some Pending \<or> stage_status runId wz j = Some Cancelled)
             \<and> ((\<exists>t v opts. req = Generate t v opts) \<longrightarrow> stage_status runId wz j = Some Pending)
             \<and> (\<forall>r. SaveArticleRun r \<in> set (new_events w1 wz)
                    \<longrightarrow> find (\<lambda>s. stage s = j) (stages r) = stage_of runId w1 j)
             \<and> StageFn runId j \<notin> set (new_events w1 wz)"
    if later: "pipeline_index k < pipeline_index j" for j
  proof -
    have jD: "j \<notin> D \<union> failed_stage F"
      using before later F by (auto simp: failed_stage_def)
    have jR: "j \<noteq> Research" using later by (cases j) auto
    have 1: "stage_of runId wz j = stage_of runId w1 j" by (rule same[OF jD])
    have 2: "stage_status runId wz j = Some (init j)"
      using 1 init[of j] by (simp add: stage_status_def stage_record_def)
    have 3: "StageFn runId j \<notin> set (new_events w1 wz)"
    proof
      assume "StageFn runId j \<in> set (new_events w1 wz)"
      then have m: "StageFn runId j \<in> set evs" using new_events_append[OF j] by simp
      from al m have "allowed Q runId (D \<union> failed_stage F) (StageFn runId j)"
        unfolding list_all_iff by blast
      with jD show False by simp
    qed
    have 4: "\<forall>r. SaveArticleRun r \<in> set (new_events w1 wz)
                    \<longrightarrow> find (\<lambda>s. stage s = j) (stages r) = stage_of runId w1 j"
      using sv jD new_events_append[OF j] by simp
    from 1 2 3 4 pc[of j] gen jR show ?thesis by auto
  qed
  from run_failed halted show ?thesis unfolding p_def wz_def by blast
qed

text \<open>
  The run in which the draft agent throws: draft is failed, the run is failed with the
  error of the rejected promise, and export, which comes after draft, is still pending,
  is pending in every run record saved during the run, and was never called. The run in which the exporter throws: export, the last stage, is
  failed, and the run is failed with the error of the rejected promise.
\<close>

theorem failure_halts_pipeline_witness:
  "start_run default_config rate_limited_agents demo_loader ''r1'' ''a1''
       (Generate ''t1'' ''1.0.0'' plain_options) empty_world
     = (Inr rate_limited_handle, snd rate_limited_start)
   \<and> stage_status ''r1'' rate_limited_final Draft = Some Failed
   \<and> pipeline_index Draft < pipeline_index Export
   \<and> stage_status ''r1'' rate_limited_final Export = Some Pending
   \<and> StageFn ''r1'' Export \<notin> set (new_events (snd rate_limited_start) rate_limited_final)
   \<and> list_all (\<lambda>e. case e of
                      SaveArticleRun r \<Rightarrow>
                        map_option status (find (\<lambda>s. stage s = Export) (stages r)) = Some Pending
                    | _ \<Rightarrow> True)
        (new_events (snd rate_limited_start) rate_limited_final)
   \<and> (\<exists>e r. fst (generationPromise rate_limited_handle) = Rejected e
          \<and> runs rate_limited_final ''r1'' = Some r
          \<and> run_status r = Run_failed \<and> run_error r = Some (message e)
          \<and> run_completed_at r \<noteq> None)
   \<and> start_run default_config export_failing_agents demo_loader ''r1'' ''a1''
       (Generate ''t1'' ''1.0.0'' plain_options) empty_world
     = (Inr export_failed_handle, snd export_failed_start)
   \<and> stage_status ''r1'' export_failed_final Export = Some Failed
   \<and> (\<exists>e r. fst (generationPromise export_failed_handle) = Rejected e
          \<and> runs export_failed_final ''r1'' = Some r
          \<and> run_status r = Run_failed \<and> run_error r = Some (message e)
          \<and> run_completed_at r \<noteq> None)"
proof -
  have l: "pipeline_index Draft < pipeline_index Export" by simp
  note draft = failure_halts_pipeline[OF rate_limited_started
        rate_limited_outcome(2)[unfolded rate_limited_final_def], folded rate_limited_final_def]
  note export = failure_halts_pipeline[OF export_failed_started
        export_failed_outcome[unfolded export_failed_final_def], folded export_failed_final_def]
  from draft l have 1: "stage_status ''r1'' rate_limited_final Export = Some Pending"
    "StageFn ''r1'' Export \<notin> set (new_events (snd rate_limited_start) rate_limited_final)"
    and same: "stage_of ''r1'' rate_limited_final Export
                 = stage_of ''r1'' (snd rate_limited_start) Export"
    and saved: "\<forall>r. SaveArticleRun r \<in> set (new_events (snd rate_limited_start) rate_limited_final)
          \<longrightarrow> find (\<lambda>s. stage s = Export) (stages r)
                = stage_of ''r1'' (snd rate_limited_start) Export"
    by blast+
  from 1(1) same saved have
    "\<forall>r. SaveArticleRun r \<in> set (new_events (snd rate_limited_start) rate_limited_final)
          \<longrightarrow> map_option status (find (\<lambda>s. stage s = Export) (stages r)) = Some Pending"
    by (simp add: stage_status_def)
  then have
    4: "list_all (\<lambda>e. case e of
                      SaveArticleRun r \<Rightarrow>
                        map_option status (find (\<lambda>s. stage s = Export) (stages r)) = Some Pending
                    | _ \<Rightarrow> True)
        (new_events (snd rate_limited_start) rate_limited_final)"
    unfolding list_all_iff by (auto split: event.splits)
  from draft have 2: "\<exists>e r. fst (generationPromise rate_limited_handle) = Rejected e
          \<and> runs rate_limited_final ''r1'' = Some r
          \<and> run_status r = Run_failed \<and> run_error r = Some (message e)
          \<and> run_completed_at r \<noteq> None" by blast
  from export have 3: "\<exists>e r. fst (generationPromise export_failed_handle) = Rejected e
          \<and> runs export_failed_final ''r1'' = Some r
          \<and> run_status r = Run_failed \<and> run_error r = Some (message e)
          \<and> run_completed_at r \<noteq> None" by blast
  from 1 2 3 4 l rate_limited_started rate_limited_outcome(2) export_failed_started
    export_failed_outcome
  show ?thesis by blast
qed

section \<open>Every stage starts from a saved record\<close>

text \<open>
  C8. In the journal of every run, each call of a stage function comes immediately after
  the save of a run record in which that stage is in progress with its start time, so
  the store already shows the stage running (and everything before it) when the stage
  function's effects begin; and the last event of the run is a save of exactly the record
  the store holds at the end, so no change of the record is left unsaved.
\<close>

theorem saved_before_stage_function:
  assumes start: "start_run env co ld runId articleId req w = (Inr h, w1)"
  shows "(\<forall>i n. i < length (new_events w (snd (generationPromise h)))
                \<and> new_events w (snd (generationPromise h)) ! i = StageFn runId n
            \<longrightarrow> 0 < i
              \<and> (\<exists>r. new_events w (snd (generationPromise h)) ! (i - 1) = SaveArticleRun r
                     \<and> run_id r = runId \<and> running_in n r))
       \<and> (\<exists>r. last (new_events w (snd (generationPromise h))) = SaveArticleRun r
              \<and> runs (snd (generationPromise h)) runId = Some r)"
proof -
  define wz where "wz = snd (generationPromise h)"
  from start_run_outcome[OF start] obtain Q P r0 where
    j0: "journal w1 = journal w @ [SaveArticleRun r0]" and s0: "runs w1 runId = Some r0"
    and rp: "run_post Q runId P w1 (fst (generationPromise h)) wz"
    unfolding wz_def by blast
  from rp obtain D F evs where j: "journal wz = journal w1 @ evs"
    and fl: "\<forall>p. flushed_from p evs"
    and la: "(evs = [] \<and> runs wz runId = runs w1 runId)
             \<or> (evs \<noteq> [] \<and> (\<exists>r. last evs = SaveArticleRun r \<and> runs wz runId = Some r))"
    unfolding run_post_def stages_after_def by blast
  have ne: "new_events w wz = SaveArticleRun r0 # evs"
    using j j0 by (simp add: new_events_def)
  have fl0: "flushed_from None (SaveArticleRun r0 # evs)" using fl by simp
  have a: "0 < i \<and> (\<exists>r. new_events w wz ! (i - 1) = SaveArticleRun r \<and> run_id r = runId \<and> running_in n r)"
    if "i < length (new_events w wz)" "new_events w wz ! i = StageFn runId n" for i n
    using flushed_from_nth[OF fl0, of i runId n] that unfolding ne by (cases i) auto
  have b: "\<exists>r. last (new_events w wz) = SaveArticleRun r \<and> runs wz runId = Some r"
    using la s0 unfolding ne by auto
  from a b show ?thesis unfolding wz_def by blast
qed

text \<open>
  The same run: the research stage function is the third event of its journal, right after
  the save of the record that shows research in progress, and the journal ends with the
  save of the record the store holds.
\<close>

theorem saved_before_stage_function_witness:
  "start_run default_config rate_limited_agents demo_loader ''r1'' ''a1''
       (Generate ''t1'' ''1.0.0'' plain_options) empty_world
     = (Inr rate_limited_handle, snd rate_limited_start)
   \<and> new_events empty_world rate_limited_final ! 2 = StageFn ''r1'' Research
   \<and> (\<exists>r. new_events empty_world rate_limited_final ! 1 = SaveArticleRun r
          \<and> run_id r = ''r1'' \<and> running_in Research r)
   \<and> (\<exists>r. last (new_events empty_world rate_limited_final) = SaveArticleRun r
          \<and> runs rate_limited_final ''r1'' = Some r)"
proof -
  note t = saved_before_stage_function[OF rate_limited_started, folded rate_limited_final_def]
  from t rate_limited_journal have
    "\<exists>r. new_events empty_world rate_limited_final ! (2 - 1) = SaveArticleRun r
          \<and> run_id r = ''r1'' \<and> running_in Research r" by blast
  then have "\<exists>r. new_events empty_world rate_limited_final ! 1 = SaveArticleRun r
          \<and> run_id r = ''r1'' \<and> running_in Research r" by simp
  with t rate_limited_journal(2) rate_limited_started show ?thesis by blast
qed

section \<open>The background promise\<close>

text \<open>
  C5, evaluated where the draft agent throws \<^verbatim>\<open>rate limited\<close>: the failure is recorded in
  the stored run (failed, with the message), and the same exception is thrown again by
  the catch block, so the generation promise rejects; the only continuation attached to
  it is \<^verbatim>\<open>finally\<close>, whose promise rejects with no handler. The rejection escapes
  unobserved.
\<close>

theorem rejection_escapes_unobserved:
  "unhandledRejection rate_limited_handle = Some (Error ''rate limited'')
   \<and> map_option (\<lambda>r. (run_status r, run_error r)) (runs rate_limited_final ''r1'')
       = Some (Run_failed, Some ''rate limited'')"
  using rate_limited_outcome(1,3) by simp

section \<open>Cancelling a run\<close>

lemma cancel_terminal_rejected:
  assumes "runs w runId = Some run" "run_status run = Run_completed \<or> run_status run = Run_failed"
  shows "\<exists>m. cancelRun runId w = (Inl (BadRequestException m), w)"
  using assms by (auto simp: cancelRun_def getArticleRun_def)

text \<open>
  C4, evaluated on a run that is in progress: the cancel succeeds, the stored run is
  failed with the message \<^verbatim>\<open>Cancelled by user\<close> and its update time is the current time,
  but its completion time is still unset.
\<close>

theorem cancel_leaves_completed_at_unset:
  "fst (cancelRun ''r1'' (world_with polled_run)) = Inr ()
   \<and> map_option (\<lambda>r. (run_status r, run_error r, updated_at r, run_completed_at r))
        (runs cancelled_world ''r1'')
       = Some (Run_failed, Some ''Cancelled by user'', Some (now (world_with polled_run)), None)"
  by (simp add: cancelled_world_def cancelRun_def getArticleRun_def world_with_def polled_run_def
      run_with_def saveArticleRun_def log_def)

section \<open>A topic that does not resolve\<close>

lemma validated_version_is_semver:
  "validateTopicConfig d = Inr t \<Longrightarrow> matches_semver (cfg_version t)"
  by (auto simp: validateTopicConfig_def split: option.splits prod.splits if_splits)

lemma loadTopic_Inr:
  assumes "loadTopic ld topicId version = Inr t"
  shows "version \<noteq> ''latest'' \<and> matches_semver version \<and> cfg_version t = version
           \<and> (\<exists>d. fetch_topic_data ld topicId version = Inr d \<and> validateTopicConfig d = Inr t)"
  using assms validated_version_is_semver
  by (auto simp: loadTopic_def split: if_splits sum.splits)

text \<open>
  C6. \<^verbatim>\<open>loadTopic\<close> fails whenever the requested version is \<^verbatim>\<open>latest\<close> or does not match
  \<^verbatim>\<open>^\d+\.\d+\.\d+$\<close>, whenever the topic data cannot be fetched (with NotFound for a
  missing file), and whenever the data fails the schema; and whenever \<^verbatim>\<open>loadTopic\<close>
  fails, \<^verbatim>\<open>generateArticle\<close> and \<^verbatim>\<open>regenerateArticle\<close> fail with the same exception
  and leave the world as it was: no run record is created or saved.
\<close>

theorem unresolved_topic_creates_no_run:
  "(version = ''latest'' \<or> \<not> matches_semver version
      \<or> isl (fetch_topic_data ld topicId version)
      \<or> (\<exists>d. fetch_topic_data ld topicId version = Inr d \<and> isl (validateTopicConfig d))
     \<longrightarrow> isl (loadTopic ld topicId version))
   \<and> (version \<noteq> ''latest'' \<and> source ld = Local \<and> files ld topicId = None
     \<longrightarrow> loadTopic ld topicId version = Inl (NotFoundException (''Topic file not found: '' @ topicId)))
   \<and> (\<forall>e. loadTopic ld topicId version = Inl e
     \<longrightarrow> generateArticle env co ld runId articleId topicId version options w = (Inl e, w)
       \<and> regenerateArticle env co ld runId existingId topicId version stgs w = (Inl e, w))"
proof (intro conjI impI allI)
  assume a: "version = ''latest'' \<or> \<not> matches_semver version
      \<or> isl (fetch_topic_data ld topicId version)
      \<or> (\<exists>d. fetch_topic_data ld topicId version = Inr d \<and> isl (validateTopicConfig d))"
  show "isl (loadTopic ld topicId version)"
  proof (cases "loadTopic ld topicId version")
    case (Inl e)
    then show ?thesis by simp
  next
    case (Inr t)
    from loadTopic_Inr[OF Inr] a show ?thesis by auto
  qed
next
  assume "version \<noteq> ''latest'' \<and> source ld = Local \<and> files ld topicId = None"
  then show "loadTopic ld topicId version = Inl (NotFoundException (''Topic file not found: '' @ topicId))"
    by (simp add: loadTopic_def fetch_topic_data_def loadTopicFromFile_def rethrow_def
        is_http_exception_def)
next
  fix e assume "loadTopic ld topicId version = Inl e"
  then show "generateArticle env co ld runId articleId topicId version options w = (Inl e, w)"
    and "regenerateArticle env co ld runId existingId topicId version stgs w = (Inl e, w)"
    by (simp_all add: generateArticle_def regenerateArticle_def)
qed

text \<open>The version \<^verbatim>\<open>1.0\<close> is not pinned: both calls fail and change nothing.\<close>

theorem unresolved_topic_creates_no_run_witness:
  "\<not> matches_semver ''1.0''
   \<and> (\<exists>e. loadTopic demo_loader ''t1'' ''1.0'' = Inl e
          \<and> generateArticle default_config good_agents demo_loader ''r1'' ''a1'' ''t1'' ''1.0''
               plain_options empty_world = (Inl e, empty_world)
          \<and> regenerateArticle default_config good_agents demo_loader ''r1'' ''a0'' ''t1'' ''1.0''
               None library_world = (Inl e, library_world))"
proof -
  have n: "\<not> matches_semver ''1.0''"
    by (simp add: matches_semver_def digits1_def is_digit_def)
  note t = unresolved_topic_creates_no_run[of "''1.0''" demo_loader "''t1''"]
  from t[of default_config good_agents "''r1''" "''a1''" plain_options empty_world] n
  obtain e where e: "loadTopic demo_loader ''t1'' ''1.0'' = Inl e"
    by (cases "loadTopic demo_loader ''t1'' ''1.0''") auto
  from t[of default_config good_agents "''r1''" "''a1''" plain_options empty_world "''a0''" None] e
  have g: "generateArticle default_config good_agents demo_loader ''r1'' ''a1'' ''t1'' ''1.0''
               plain_options empty_world = (Inl e, empty_world)" by blast
  from t[of default_config good_agents "''r1''" "''a1''" plain_options library_world "''a0''" None] e
  have r: "regenerateArticle default_config good_agents demo_loader ''r1'' ''a0'' ''t1'' ''1.0''
               None library_world = (Inl e, library_world)" by blast
  from n e g r show ?thesis by blast
qed

section \<open>Timeouts\<close>












section \<open>Research that is skipped\<close>

lemma progress_from_statuses:
  assumes "map status (stages r) = sts" "sts \<noteq> []"
  shows "progress (project_status r)
           = (200 * int (length (filter (\<lambda>x. x = Completed) sts)) + int (length sts))
               div (2 * int (length sts))"
proof -
  have c: "length (filter (\<lambda>s. status s = Completed) (stages r))
             = length (filter (\<lambda>x. x = Completed) sts)"
    unfolding assms(1)[symmetric] by (simp add: filter_map o_def)
  have t: "length (stages r) = length sts" using assms(1) by auto
  from assms(2) t have pos: "0 < length (stages r)" by simp
  show ?thesis
    using pos js_round_percent[OF pos, of "length (filter (\<lambda>s. status s = Completed) (stages r))"]
    by (simp add: project_status_def Let_def c t)
qed

lemma stages_of_pipeline:
  assumes "runs w rid = Some r" "stage_names rid w = [Research, Outline, Draft, Refine, Export]"
  shows "map status (stages r)
           = map (\<lambda>n. the (stage_status rid w n)) [Research, Outline, Draft, Refine, Export]"
proof -
  from assms have "map stage (stages r) = [Research, Outline, Draft, Refine, Export]"
    by (simp add: stage_names_def)
  then obtain s1 s2 s3 s4 s5 where
    "stages r = [s1, s2, s3, s4, s5]" "stage s1 = Research" "stage s2 = Outline"
    "stage s3 = Draft" "stage s4 = Refine" "stage s5 = Export"
    by (auto simp: map_eq_Cons_conv)
  with assms(1) show ?thesis by (simp add: stage_status_def stage_of_def)
qed

text \<open>
  C2, as the code has it. For every generation whose research is bypassed by the
  \<^verbatim>\<open>skipResearch\<close> option or disabled by the topic, the research agent and the research
  stage function are never called; with the option, the research stage record ends
  cancelled. When no stage of the finished run is failed, the background promise is
  fulfilled, the stored run is completed and the reported progress is 80. No stage fails,
  and so the run completes with progress 80, whenever the outline, draft and refine agents
  and the export stage function return a value no later than the timer.
\<close>

theorem skipped_research_is_cancelled_and_counts_as_incomplete:
  assumes start: "generateArticle env co ld runId articleId topicId version options w = (Inr h, w1)"
    and topic: "loadTopic ld topicId version = Inr topic"
    and skip: "skipResearch options \<or> \<not> research_enabled topic"
  shows "(\<forall>t. ConductResearch t \<notin> set (new_events w1 (snd (generationPromise h))))
       \<and> StageFn runId Research \<notin> set (new_events w1 (snd (generationPromise h)))
       \<and> (skipResearch options
            \<longrightarrow> stage_status runId (snd (generationPromise h)) Research = Some Cancelled)
       \<and> (fst (generationPromise h) = Fulfilled
            \<longrightarrow> (\<exists>v. getArticleRunStatus runId (snd (generationPromise h)) = Inr v
                    \<and> view_status v = Run_completed \<and> progress v = 80))
       \<and> ((\<forall>n. stage_status runId (snd (generationPromise h)) n \<noteq> Some Failed)
            \<longrightarrow> fst (generationPromise h) = Fulfilled
              \<and> (\<exists>v. getArticleRunStatus runId (snd (generationPromise h)) = Inr v
                    \<and> view_status v = Run_completed \<and> progress v = 80))
       \<and> (in_time (timer env) (generateOutline co topic None)
            \<and> (\<forall>ol. in_time (timer env) (generateDraft co topic ol None))
            \<and> (\<forall>ct cs. in_time (timer env) (refineAndOptimize co topic ct cs))
            \<and> (\<forall>a t0 w'. in_time (timer env) (fst (export_fn co topic options t0 a w')))
            \<longrightarrow> fst (generationPromise h) = Fulfilled
              \<and> (\<exists>v. getArticleRunStatus runId (snd (generationPromise h)) = Inr v
                    \<and> view_status v = Run_completed \<and> progress v = 80)
              \<and> (\<forall>n. stage_status runId (snd (generationPromise h)) n \<noteq> Some Failed)
              \<and> (\<forall>n. n \<noteq> Research
                     \<longrightarrow> stage_status runId (snd (generationPromise h)) n = Some Completed
                       \<and> StageFn runId n \<in> set (new_events w1 (snd (generationPromise h)))))"
proof -
  define p where "p = fst (generationPromise h)"
  define wz where "wz = snd (generationPromise h)"
  from generateArticle_started[OF start] topic have
    h: "h = start_background runId (executeGeneration env co articleId runId topic options w1)"
    and st: "stored runId w1" and c: "has_all_stages runId w1"
    and names: "stage_names runId w1 = [Research, Outline, Draft, Refine, Export]"
    and init: "\<And>n. stage_of runId w1 n
                  = Some (stage_record n (if n = Research \<and> skipResearch options then Cancelled else Pending))"
    by auto
  have run: "executeGeneration env co articleId runId topic options w1 = (p, wz)"
    by (simp add: p_def wz_def h start_background_def)
  from skip have go: "(\<not> skipResearch options \<and> research_enabled topic) = False" by auto
  from executeGeneration_outcome[OF st c run]
  have "run_post (research_only_if False) runId later_stages w1 p wz" by (simp add: go)
  then obtain D F where
    sa: "stages_after (research_only_if False) runId D F w1 wz"
    and dp: "D \<subseteq> later_stages"
    and cs: "case p of
              Fulfilled \<Rightarrow> F = None \<and> D = later_stages
                       \<and> (\<exists>t. run_part runId wz = Some (Run_completed, None, Some t))
            | Rejected e \<Rightarrow> (\<exists>n. F = Some (n, e) \<and> n \<in> later_stages)
                       \<and> (\<exists>t. run_part runId wz = Some (Run_failed, Some (message e), Some t))"
    unfolding run_post_def by blast
  have fl: "failed_stage F \<subseteq> later_stages"
    using cs by (cases p) (auto simp: failed_stage_def)
  have rn: "Research \<notin> D \<union> failed_stage F"
    using dp fl by (auto simp: later_stages_def)
  from sa obtain evs where j: "journal wz = journal w1 @ evs"
    and al: "list_all (allowed (research_only_if False) runId (D \<union> failed_stage F)) evs"
    and called: "\<forall>m\<in>D \<union> failed_stage F. StageFn runId m \<in> set evs"
    by (auto simp: stages_after_def)
  note ne = new_events_append[OF j]
  have 1: "ConductResearch t \<notin> set (new_events w1 wz)" for t
  proof
    assume "ConductResearch t \<in> set (new_events w1 wz)"
    then have "ConductResearch t \<in> set evs" using ne by simp
    with al have "allowed (research_only_if False) runId (D \<union> failed_stage F) (ConductResearch t)"
      unfolding list_all_iff by blast
    then show False by (simp add: allowed_def research_only_if_def)
  qed
  have 2: "StageFn runId Research \<notin> set (new_events w1 wz)"
  proof
    assume "StageFn runId Research \<in> set (new_events w1 wz)"
    then have "StageFn runId Research \<in> set evs" using ne by simp
    with al have "allowed (research_only_if False) runId (D \<union> failed_stage F) (StageFn runId Research)"
      unfolding list_all_iff by blast
    with rn show False by simp
  qed
  have same: "stage_of runId wz Research = stage_of runId w1 Research"
    using sa rn by (simp add: stages_after_def)
  have res: "stage_status runId wz Research
               = Some (if skipResearch options then Cancelled else Pending)"
    using same init[of Research] by (simp add: stage_status_def stage_record_def)
  have 3: "stage_status runId wz Research = Some Cancelled" if "skipResearch options"
    using res that by simp
  have comp: "stage_status runId wz n = Some Completed \<and> StageFn runId n \<in> set (new_events w1 wz)"
    if "p = Fulfilled" "n \<noteq> Research" for n
  proof -
    from cs that(1) have D: "D = later_stages" by simp
    from that(2) have "n \<in> later_stages" by (cases n) (simp_all add: later_stages_def)
    with sa D called ne show ?thesis by (simp add: stages_after_def stage_status_def)
  qed
  have 4: "\<exists>v. getArticleRunStatus runId wz = Inr v
                    \<and> view_status v = Run_completed \<and> progress v = 80" if "p = Fulfilled"
  proof -
    from cs that have rp: "\<exists>t. run_part runId wz = Some (Run_completed, None, Some t)" by simp
    from rp obtain r where r: "runs wz runId = Some r" and rs: "run_status r = Run_completed"
      by (auto simp: run_part_def)
    have nm: "stage_names runId wz = [Research, Outline, Draft, Refine, Export]"
      using stages_after_names[OF sa] names by simp
    have "map status (stages r)
            = [if skipResearch options then Cancelled else Pending,
               Completed, Completed, Completed, Completed]"
      using stages_of_pipeline[OF r nm] res comp[OF that] by simp
    from progress_from_statuses[OF this] have "progress (project_status r) = 80" by simp
    with r rs show ?thesis
      by (simp add: getArticleRunStatus_def getArticleRun_def project_status_def Let_def)
  qed
  have 5: "p = Fulfilled" if nf: "\<forall>n. stage_status runId wz n \<noteq> Some Failed"
  proof (cases p)
    case Fulfilled
    then show ?thesis .
  next
    case (Rejected e)
    with cs obtain n where "F = Some (n, e)" by auto
    with sa have "stage_status runId wz n = Some Failed"
      by (auto simp: stages_after_def stage_status_def)
    with nf show ?thesis by simp
  qed
  have nofail: "stage_status runId wz n \<noteq> Some Failed" if "p = Fulfilled" for n
    using comp[OF that, of n] res by (cases "n = Research") auto
  have 6: "p = Fulfilled"
    if o: "in_time (timer env) (generateOutline co topic None)"
      and d: "\<forall>ol. in_time (timer env) (generateDraft co topic ol None)"
      and r: "\<forall>ct cs. in_time (timer env) (refineAndOptimize co topic ct cs)"
      and x: "\<forall>a t0 w'. in_time (timer env) (fst (export_fn co topic options t0 a w'))"
  proof -
    from generation_tail_in_time[OF st o, of options "now w1" articleId] d r x obtain w' where
      "generation_tail env co articleId runId topic options (now w1) None w1 = (Inr (), w')"
      by blast
    then have "executeGeneration env co articleId runId topic options w1 = (Fulfilled, w')"
      by (simp add: executeGeneration_def generation_body_def go run_catch_def)
    with run show ?thesis by simp
  qed
  from 1 2 3 4 5 6 comp nofail show ?thesis unfolding p_def wz_def by blast
qed

text \<open>
  A generation with \<^verbatim>\<open>skipResearch\<close> in which every collaborator returns after 10 ms,
  against the default timer: research is cancelled and never called, the promise is
  fulfilled, the run is completed and the progress is 80.
\<close>

theorem skipped_research_is_cancelled_and_counts_as_incomplete_witness:
  "generateArticle default_config good_agents demo_loader ''r1'' ''a1'' ''t1'' ''1.0.0''
       skip_options empty_world = (Inr skipped_handle, snd skipped_start)
   \<and> loadTopic demo_loader ''t1'' ''1.0.0'' = Inr demo_topic
   \<and> skipResearch skip_options
   \<and> in_time (timer default_config) (generateOutline good_agents demo_topic None)
   \<and> (\<forall>ol. in_time (timer default_config) (generateDraft good_agents demo_topic ol None))
   \<and> (\<forall>ct cs. in_time (timer default_config) (refineAndOptimize good_agents demo_topic ct cs))
   \<and> (\<forall>a t0 w'. in_time (timer default_config)
                    (fst (export_fn good_agents demo_topic skip_options t0 a w')))
   \<and> stage_status ''r1'' skipped_final Research = Some Cancelled
   \<and> StageFn ''r1'' Research \<notin> set (new_events (snd skipped_start) skipped_final)
   \<and> StageFn ''r1'' Outline \<in> set (new_events (snd skipped_start) skipped_final)
   \<and> fst (generationPromise skipped_handle) = Fulfilled
   \<and> (\<forall>n. stage_status ''r1'' skipped_final n \<noteq> Some Failed)
   \<and> (\<exists>v. getArticleRunStatus ''r1'' skipped_final = Inr v
          \<and> view_status v = Run_completed \<and> progress v = 80)"
proof -
  have s: "skipResearch skip_options \<or> \<not> research_enabled demo_topic"
    and s': "skipResearch skip_options"
    by (simp_all add: skip_options_def)
  have tm: "timer default_config = 300000"
    by (simp add: stage_timeout_def setTimeout_delay_def default_config_def)
  have o: "in_time (timer default_config) (generateOutline good_agents demo_topic None)"
    and d: "\<forall>ol. in_time (timer default_config) (generateDraft good_agents demo_topic ol None)"
    and r: "\<forall>ct cs. in_time (timer default_config) (refineAndOptimize good_agents demo_topic ct cs)"
    by (simp_all add: tm in_time_def good_agents_def)
  have x: "\<forall>a t0 w'. in_time (timer default_config)
                    (fst (export_fn good_agents demo_topic skip_options t0 a w'))"
    by (simp add: tm in_time_def good_agents_def export_fn_def Let_def skip_options_def
        demo_topic_def)
  note t = skipped_research_is_cancelled_and_counts_as_incomplete[OF skipped_started load_demo s,
      folded skipped_final_def]
  from t o d r x have f: "fst (generationPromise skipped_handle) = Fulfilled"
    and nf: "\<forall>n. stage_status ''r1'' skipped_final n \<noteq> Some Failed"
    and ol: "StageFn ''r1'' Outline \<in> set (new_events (snd skipped_start) skipped_final)"
    by blast+
  from t f have v: "\<exists>v. getArticleRunStatus ''r1'' skipped_final = Inr v
          \<and> view_status v = Run_completed \<and> progress v = 80" by blast
  from t s' have c: "stage_status ''r1'' skipped_final Research = Some Cancelled"
    "StageFn ''r1'' Research \<notin> set (new_events (snd skipped_start) skipped_final)" by blast+
  from skipped_started load_demo s' o d r x c ol f nf v show ?thesis by blast
qed

text \<open>
  C2 as stated fails: in a generation with \<^verbatim>\<open>skipResearch\<close> where every collaborator
  succeeds, the run completes with the research stage cancelled (the stage status has no
  value \<^verbatim>\<open>skipped\<close>) and the reported progress is 80, not 100.
\<close>

theorem skipped_research_not_skipped_nor_full_progress:
  "fst (generationPromise skipped_handle) = Fulfilled
   \<and> (\<exists>r v. runs skipped_final ''r1'' = Some r
          \<and> map status (stages r) = [Cancelled, Completed, Completed, Completed, Completed]
          \<and> getArticleRunStatus ''r1'' skipped_final = Inr v
          \<and> view_status v = Run_completed \<and> progress v = 80 \<and> progress v \<noteq> 100)"
proof -
  from skipped_outcome(2) obtain r where r: "runs skipped_final ''r1'' = Some r"
    and rs: "run_status r = Run_completed"
    and sts: "map status (stages r) = [Cancelled, Completed, Completed, Completed, Completed]"
    by auto
  from progress_from_statuses[OF sts] have "progress (project_status r) = 80" by simp
  with r rs sts skipped_outcome(1) show ?thesis
    by (simp add: getArticleRunStatus_def getArticleRun_def project_status_def Let_def)
qed

section \<open>Regeneration without a stage list\<close>

lemma same_outline: "a\<lparr>outline := outline a\<rparr> = (a :: Article)"
  by (cases a) simp

lemma regeneration_default_body:
  "regeneration_body env co rid topic a [''refine'', ''export'']
     = andThen (executeStage env rid Refine (refine_fn co topic (content a) (citations a)))
         (\<lambda>(rc, sm).
            andThen (executeStage env rid Export
                       (regen_export_fn co topic (a\<lparr>content := rc, seo := sm\<rparr>)))
              (\<lambda>exported w.
                 (case updateRunStatus rid Run_completed None w of
                    Inl e \<Rightarrow> (Inl e, w)
                  | Inr w' \<Rightarrow> (Inr (), w'))))"
  by (simp add: regeneration_body_def regeneration_tail_def Let_def andThen_def ret_def fun_eq_iff
      same_outline split: prod.splits sum.splits)

lemma regen_export_fn_journal:
  "\<exists>evs. journal (snd (regen_export_fn co topic a4 w))
            = journal w @ SaveArticle (a4\<lparr>art_updated_at := Some (now w)\<rparr>) # evs"
  using export_all_journal[of "exportArticle co" "a4\<lparr>art_updated_at := Some (now w)\<rparr>"
      "formats topic" "saveArticle (a4\<lparr>art_updated_at := Some (now w)\<rparr>) w"]
  by (auto simp: regen_export_fn_def Let_def saveArticle_def log_def)

text \<open>
  The export stage of a regeneration and the run-status update after it, from a world in
  which the run is stored.
\<close>

lemma regen_export_step:
  assumes st: "stored rid wR"
    and run: "andThen (executeStage env rid Export (regen_export_fn co topic a4))
                (\<lambda>exported w.
                   (case updateRunStatus rid Run_completed None w of
                      Inl e \<Rightarrow> (Inl e, w)
                    | Inr w' \<Rightarrow> (Inr (), w'))) wR = (res, wb)"
  shows "stored rid wb"
    and "stage_of rid wb Refine = stage_of rid wR Refine"
    and "\<exists>r3 evs. journal wb = journal wR @ SaveArticleRun r3 # StageFn rid Export
                      # SaveArticle (a4\<lparr>art_updated_at := Some (now wR)\<rparr>) # evs"
    and "(\<forall>w'. in_time (timer env) (fst (regen_export_fn co topic a4 w'))) \<Longrightarrow> \<not> isl res"
proof -
  let ?fnE = "regen_export_fn co topic a4"
  let ?wc = "call_world rid Export wR"
  have qE: "emits (\<lambda>e::event. True) ?fnE" by (rule emits_regen_export) simp_all
  from call_world_stored[OF st, of Export] obtain r3 where
    jc: "journal ?wc = journal wR @ [SaveArticleRun r3, StageFn rid Export]"
    and nc: "now ?wc = now wR" by blast
  from regen_export_fn_journal[of co topic a4 ?wc] obtain evsX where
    jX: "journal (snd (?fnE ?wc))
           = journal ?wc @ SaveArticle (a4\<lparr>art_updated_at := Some (now wR)\<rparr>) # evsX"
    by (auto simp: nc)
  define resE where "resE = snd (race (timer env) Export (fst (?fnE ?wc)))"
  from executeStage_run[OF st qE, of env Export] obtain wE r4 where
    exE: "executeStage env rid Export ?fnE wR = (resE, wE)"
    and jE: "journal wE = journal (snd (?fnE ?wc)) @ [SaveArticleRun r4]"
    by (auto simp: resE_def)
  have stE: "stored rid wE" by (rule executeStage_step(1)[OF st qE exE])
  have soE: "stage_of rid wE Refine = stage_of rid wR Refine"
    by (rule executeStage_step(2)[OF st qE exE]) simp
  from updateRunStatus_stored[OF stE, of Run_completed None] obtain w5 r5 where
    u: "updateRunStatus rid Run_completed None wE = Inr w5" and st5: "stored rid w5"
    and j5: "journal w5 = journal wE @ [SaveArticleRun r5]"
    and so5: "stage_of rid w5 = stage_of rid wE" by blast
  have kk: "(res, wb) = (case resE of Inl e \<Rightarrow> (Inl e, wE) | Inr x \<Rightarrow> (Inr (), w5))"
    using run exE u by (simp add: andThen_def split: sum.splits)
  have jEE: "journal wE = journal wR @ SaveArticleRun r3 # StageFn rid Export
                      # SaveArticle (a4\<lparr>art_updated_at := Some (now wR)\<rparr>) # evsX @ [SaveArticleRun r4]"
    using jE jX jc by simp
  show "stored rid wb" using kk stE st5 by (cases resE) auto
  show "stage_of rid wb Refine = stage_of rid wR Refine"
    using kk soE so5 by (cases resE) auto
  show "\<exists>r3 evs. journal wb = journal wR @ SaveArticleRun r3 # StageFn rid Export
                      # SaveArticle (a4\<lparr>art_updated_at := Some (now wR)\<rparr>) # evs"
    using kk jEE j5 by (cases resE) auto
  show "\<not> isl res" if "\<forall>w'. in_time (timer env) (fst (?fnE w'))"
  proof -
    from that have "in_time (timer env) (fst (?fnE ?wc))" by blast
    from race_in_time[OF this, of Export] have "\<not> isl resE" by (auto simp: resE_def)
    with kk show ?thesis by (cases resE) auto
  qed
qed

text \<open>
  A regeneration of refine and export only, from a world in which the run is stored: the
  refine stage function is called first, with the existing content and citations; when
  the refine agent returns in time the export stage function is called and saves the
  existing article with the refined content; when the export is in time as well the
  promise is fulfilled.
\<close>

lemma default_regeneration_run:
  assumes st: "stored rid w1" and s0: "stage_of rid w1 Refine \<noteq> None"
    and run: "executeRegeneration env co rid topic a [''refine'', ''export''] w1 = (p, wz)"
  shows "StageFn rid Refine \<in> set (new_events w1 wz)"
    and "RefineAndOptimize topic (content a) (citations a) \<in> set (new_events w1 wz)"
    and "\<And>d rc sm. refineAndOptimize co topic (content a) (citations a) = Settles d (Inr (rc, sm))
           \<Longrightarrow> d \<le> timer env \<Longrightarrow>
           stage_status rid wz Refine = Some Completed
           \<and> StageFn rid Export \<in> set (new_events w1 wz)
           \<and> (\<exists>t. SaveArticle (a\<lparr>content := rc, seo := sm, art_updated_at := Some t\<rparr>)
                    \<in> set (new_events w1 wz))
           \<and> ((\<forall>w'. in_time (timer env)
                      (fst (regen_export_fn co topic (a\<lparr>content := rc, seo := sm\<rparr>) w')))
                \<longrightarrow> p = Fulfilled)"
proof -
  let ?fnR = "refine_fn co topic (content a) (citations a)"
  let ?bR = "refineAndOptimize co topic (content a) (citations a)"
  have qR: "emits (\<lambda>e::event. True) ?fnR" by (rule emits_refine) simp
  from call_world_stored[OF st, of Refine] obtain r1 where
    jc: "journal (call_world rid Refine w1) = journal w1 @ [SaveArticleRun r1, StageFn rid Refine]"
    by blast
  define resR where "resR = snd (race (timer env) Refine ?bR)"
  from executeStage_run[OF st qR, of env Refine] obtain wR r2 where
    exR: "executeStage env rid Refine ?fnR w1 = (resR, wR)"
    and jR0: "journal wR = journal (snd (?fnR (call_world rid Refine w1))) @ [SaveArticleRun r2]"
    by (auto simp: resR_def refine_fn_def)
  have jR: "journal wR = journal w1 @ [SaveArticleRun r1, StageFn rid Refine,
                                       RefineAndOptimize topic (content a) (citations a),
                                       SaveArticleRun r2]"
    using jR0 jc by (simp add: refine_fn_def log_def)
  have stR: "stored rid wR" by (rule executeStage_step(1)[OF st qR exR])
  obtain res wb where body: "regeneration_body env co rid topic a [''refine'', ''export''] w1 = (res, wb)"
    by force
  from run body have rc: "run_catch rid (res, wb) = (p, wz)"
    by (simp add: executeRegeneration_def)
  have stb: "stored rid wb" and jb: "\<exists>evs. journal wb = journal wR @ evs"
  proof -
    have "stored rid wb \<and> (\<exists>evs. journal wb = journal wR @ evs)"
    proof (cases resR)
      case (Inl e)
      with body exR have "wb = wR" by (simp add: regeneration_default_body andThen_def)
      with stR show ?thesis by simp
    next
      case (Inr v)
      obtain rc sm where v: "v = (rc, sm)" by (cases v)
      from body exR Inr v have
        k: "andThen (executeStage env rid Export
                       (regen_export_fn co topic (a\<lparr>content := rc, seo := sm\<rparr>)))
              (\<lambda>exported w.
                 (case updateRunStatus rid Run_completed None w of
                    Inl e \<Rightarrow> (Inl e, w)
                  | Inr w' \<Rightarrow> (Inr (), w'))) wR = (res, wb)"
        by (simp add: regeneration_default_body andThen_def[of "executeStage env rid Refine ?fnR"])
      from regen_export_step(1,3)[OF stR k] show ?thesis by auto
    qed
    then show "stored rid wb" "\<exists>evs. journal wb = journal wR @ evs" by blast+
  qed
  note fin = run_catch_stored[OF stb rc]
  from fin(1) jb jR obtain evs where
    jz: "journal wz = journal w1 @ SaveArticleRun r1 # StageFn rid Refine
                        # RefineAndOptimize topic (content a) (citations a) # evs"
    by auto
  show "StageFn rid Refine \<in> set (new_events w1 wz)"
    and "RefineAndOptimize topic (content a) (citations a) \<in> set (new_events w1 wz)"
    using new_events_append[OF jz] by simp_all
  show "stage_status rid wz Refine = Some Completed
           \<and> StageFn rid Export \<in> set (new_events w1 wz)
           \<and> (\<exists>t. SaveArticle (a\<lparr>content := rc, seo := sm, art_updated_at := Some t\<rparr>)
                    \<in> set (new_events w1 wz))
           \<and> ((\<forall>w'. in_time (timer env)
                      (fst (regen_export_fn co topic (a\<lparr>content := rc, seo := sm\<rparr>) w')))
                \<longrightarrow> p = Fulfilled)"
    if b: "?bR = Settles d (Inr (rc, sm))" and d: "d \<le> timer env" for d rc sm
  proof -
    from b d have resR: "resR = Inr (rc, sm)" by (simp add: resR_def)
    from s0 obtain s where s: "stage_of rid w1 Refine = Some s" by auto
    from executeStage_step(3)[OF st qR exR s] resR have
      cR: "map_option status (stage_of rid wR Refine) = Some Completed" by auto
    from body exR resR have
      k: "andThen (executeStage env rid Export
                     (regen_export_fn co topic (a\<lparr>content := rc, seo := sm\<rparr>)))
            (\<lambda>exported w.
               (case updateRunStatus rid Run_completed None w of
                  Inl e \<Rightarrow> (Inl e, w)
                | Inr w' \<Rightarrow> (Inr (), w'))) wR = (res, wb)"
      by (simp add: regeneration_default_body andThen_def[of "executeStage env rid Refine ?fnR"])
    note ex = regen_export_step[OF stR k]
    from ex(3) obtain r3 evsE where
      jbE: "journal wb = journal wR @ SaveArticleRun r3 # StageFn rid Export
              # SaveArticle (a\<lparr>content := rc, seo := sm, art_updated_at := Some (now wR)\<rparr>) # evsE"
      by auto
    from fin(1) obtain evsZ where "journal wz = journal wb @ evsZ" by blast
    with jbE jR have
      "journal wz = journal w1 @ ([SaveArticleRun r1, StageFn rid Refine,
                                   RefineAndOptimize topic (content a) (citations a),
                                   SaveArticleRun r2, SaveArticleRun r3, StageFn rid Export,
                                   SaveArticle (a\<lparr>content := rc, seo := sm,
                                                  art_updated_at := Some (now wR)\<rparr>)]
                                  @ evsE @ evsZ)"
      by simp
    from new_events_append[OF this] have
      1: "StageFn rid Export \<in> set (new_events w1 wz)"
      and 2: "SaveArticle (a\<lparr>content := rc, seo := sm, art_updated_at := Some (now wR)\<rparr>)
                \<in> set (new_events w1 wz)"
      by simp_all
    have 3: "stage_status rid wz Refine = Some Completed"
      using fin(2) ex(2) cR by (simp add: stage_status_def)
    have 4: "p = Fulfilled"
      if "\<forall>w'. in_time (timer env)
                 (fst (regen_export_fn co topic (a\<lparr>content := rc, seo := sm\<rparr>) w'))"
      using ex(4)[OF that] fin(3) by simp
    from 1 2 3 4 show ?thesis by blast
  qed
qed

text \<open>
  C10. A regeneration called without a stage list creates its run record with refine and
  export pending and research, outline and draft cancelled. In the background run the
  refine stage function is called, and the refine agent with it, on the existing
  article's content and citations; no research, outline or draft agent and no other stage
  function but export is called. When the refine agent returns in time, refine ends
  completed, the export stage function is called, and it saves the existing article with
  the refined content and SEO data (outline and citations as they were); when the export
  is in time as well, the promise is fulfilled. When the promise is fulfilled, both stage
  functions were called and refine and export are completed; and it is fulfilled whenever
  no stage of the finished run is failed.
\<close>

theorem regeneration_defaults_to_refine_and_export:
  assumes start: "regenerateArticle env co ld runId articleId topicId version None w = (Inr h, w1)"
  shows "(\<forall>n. stage_status runId w1 n
               = Some (if n = Refine \<or> n = Export then Pending else Cancelled))
       \<and> (\<exists>topic a. loadTopic ld topicId version = Inr topic \<and> articles w articleId = Some a
            \<and> (\<forall>e\<in>set (new_events w1 (snd (generationPromise h))).
                  case e of
                    StageFn r n \<Rightarrow> r = runId \<and> (n = Refine \<or> n = Export)
                  | ConductResearch t \<Rightarrow> False
                  | GenerateOutline t rr \<Rightarrow> False
                  | GenerateDraft t ol rr \<Rightarrow> False
                  | RefineAndOptimize t ct cs \<Rightarrow> ct = content a \<and> cs = citations a
                  | SaveArticle a' \<Rightarrow> art_id a' = art_id a \<and> outline a' = outline a
                                       \<and> citations a' = citations a
                  | _ \<Rightarrow> True)
            \<and> StageFn runId Refine \<in> set (new_events w1 (snd (generationPromise h)))
            \<and> RefineAndOptimize topic (content a) (citations a)
                 \<in> set (new_events w1 (snd (generationPromise h)))
            \<and> (\<forall>d rc sm.
                  refineAndOptimize co topic (content a) (citations a) = Settles d (Inr (rc, sm))
                  \<and> d \<le> timer env \<longrightarrow>
                    stage_status runId (snd (generationPromise h)) Refine = Some Completed
                    \<and> StageFn runId Export \<in> set (new_events w1 (snd (generationPromise h)))
                    \<and> (\<exists>t. SaveArticle (a\<lparr>content := rc, seo := sm, art_updated_at := Some t\<rparr>)
                             \<in> set (new_events w1 (snd (generationPromise h))))
                    \<and> ((\<forall>w'. in_time (timer env)
                               (fst (regen_export_fn co topic (a\<lparr>content := rc, seo := sm\<rparr>) w')))
                         \<longrightarrow> fst (generationPromise h) = Fulfilled)))
       \<and> (fst (generationPromise h) = Fulfilled
            \<longrightarrow> StageFn runId Refine \<in> set (new_events w1 (snd (generationPromise h)))
              \<and> StageFn runId Export \<in> set (new_events w1 (snd (generationPromise h)))
              \<and> (\<forall>n. stage_status runId (snd (generationPromise h)) n
                        = Some (if n = Refine \<or> n = Export then Completed else Cancelled)))
       \<and> ((\<forall>n. stage_status runId (snd (generationPromise h)) n \<noteq> Some Failed)
            \<longrightarrow> fst (generationPromise h) = Fulfilled)"
proof -
  define p where "p = fst (generationPromise h)"
  define wz where "wz = snd (generationPromise h)"
  define stgs where "stgs = [''refine'', ''export'']"
  from regenerateArticle_started[OF start] obtain topic a where
    topic: "loadTopic ld topicId version = Inr topic"
    and a: "articles w articleId = Some a"
    and h: "h = start_background runId (executeRegeneration env co runId topic a stgs w1)"
    and st: "stored runId w1" and c: "has_all_stages runId w1"
    and init: "\<And>n. stage_of runId w1 n
                  = Some (stage_record n (if stage_label n \<in> set stgs then Pending else Cancelled))"
    unfolding stgs_def by auto
  have lab: "(stage_label n \<in> set stgs) = (n = Refine \<or> n = Export)" for n
    by (cases n) (simp_all add: stgs_def)
  have req: "requested topic stgs = {Refine, Export}"
    by (auto simp: requested_def lab)
  have 1: "stage_status runId w1 n = Some (if n = Refine \<or> n = Export then Pending else Cancelled)"
    for n using init[of n] by (simp add: stage_status_def stage_record_def lab)
  have run: "executeRegeneration env co runId topic a stgs w1 = (p, wz)"
    by (simp add: p_def wz_def h start_background_def)
  from executeRegeneration_outcome[OF st c run] obtain D F where
    sa: "stages_after (regen_events topic a stgs) runId D F w1 wz"
    and dp: "D \<subseteq> {Refine, Export}"
    and cs: "case p of
              Fulfilled \<Rightarrow> F = None \<and> D = {Refine, Export}
                       \<and> (\<exists>t. run_part runId wz = Some (Run_completed, None, Some t))
            | Rejected e \<Rightarrow> (\<exists>n. F = Some (n, e) \<and> n \<in> {Refine, Export})
                       \<and> (\<exists>t. run_part runId wz = Some (Run_failed, Some (message e), Some t))"
    unfolding run_post_def req by blast
  have fl: "failed_stage F \<subseteq> {Refine, Export}"
    using cs by (cases p) (auto simp: failed_stage_def)
  from sa obtain evs where j: "journal wz = journal w1 @ evs"
    and al: "list_all (allowed (regen_events topic a stgs) runId (D \<union> failed_stage F)) evs"
    and called: "\<forall>m\<in>D \<union> failed_stage F. StageFn runId m \<in> set evs"
    by (auto simp: stages_after_def)
  note ne = new_events_append[OF j]
  have 2: "case e of
                    StageFn r n \<Rightarrow> r = runId \<and> (n = Refine \<or> n = Export)
                  | ConductResearch t \<Rightarrow> False
                  | GenerateOutline t rr \<Rightarrow> False
                  | GenerateDraft t ol rr \<Rightarrow> False
                  | RefineAndOptimize t ct cs \<Rightarrow> ct = content a \<and> cs = citations a
                  | SaveArticle a' \<Rightarrow> art_id a' = art_id a \<and> outline a' = outline a
                                       \<and> citations a' = citations a
                  | _ \<Rightarrow> True"
    if "e \<in> set (new_events w1 wz)" for e
  proof -
    from that ne al have "allowed (regen_events topic a stgs) runId (D \<union> failed_stage F) e"
      unfolding list_all_iff by blast
    then show ?thesis
      using dp fl by (cases e) (auto simp: allowed_def regen_events_def stgs_def)
  qed
  have 3: "StageFn runId Refine \<in> set (new_events w1 wz)
              \<and> StageFn runId Export \<in> set (new_events w1 wz)
              \<and> (\<forall>n. stage_status runId wz n
                        = Some (if n = Refine \<or> n = Export then Completed else Cancelled))"
    if "p = Fulfilled"
  proof -
    from cs that have D: "D = {Refine, Export}" and F: "F = None" by simp_all
    have "stage_status runId wz n = Some (if n = Refine \<or> n = Export then Completed else Cancelled)"
      for n
    proof (cases "n \<in> D")
      case True
      with sa D show ?thesis by (auto simp: stages_after_def stage_status_def)
    next
      case False
      with sa F have "stage_of runId wz n = stage_of runId w1 n"
        by (simp add: stages_after_def failed_stage_def)
      with False D 1[of n] show ?thesis by (simp add: stage_status_def)
    qed
    with called D ne show ?thesis by simp
  qed
  have 4: "p = Fulfilled" if nf: "\<forall>n. stage_status runId wz n \<noteq> Some Failed"
  proof (cases p)
    case Fulfilled
    then show ?thesis .
  next
    case (Rejected e)
    with cs obtain n where "F = Some (n, e)" by auto
    with sa have "stage_status runId wz n = Some Failed"
      by (auto simp: stages_after_def stage_status_def)
    with nf show ?thesis by simp
  qed
  have s0: "stage_of runId w1 Refine \<noteq> None" using init[of Refine] by simp
  note tr = default_regeneration_run[OF st s0 run[unfolded stgs_def]]
  have 5: "\<forall>d rc sm.
                  refineAndOptimize co topic (content a) (citations a) = Settles d (Inr (rc, sm))
                  \<and> d \<le> timer env \<longrightarrow>
                    stage_status runId wz Refine = Some Completed
                    \<and> StageFn runId Export \<in> set (new_events w1 wz)
                    \<and> (\<exists>t. SaveArticle (a\<lparr>content := rc, seo := sm, art_updated_at := Some t\<rparr>)
                             \<in> set (new_events w1 wz))
                    \<and> ((\<forall>w'. in_time (timer env)
                               (fst (regen_export_fn co topic (a\<lparr>content := rc, seo := sm\<rparr>) w')))
                         \<longrightarrow> p = Fulfilled)"
    using tr(3) by blast
  have 6: "\<forall>e\<in>set (new_events w1 wz).
                  case e of
                    StageFn r n \<Rightarrow> r = runId \<and> (n = Refine \<or> n = Export)
                  | ConductResearch t \<Rightarrow> False
                  | GenerateOutline t rr \<Rightarrow> False
                  | GenerateDraft t ol rr \<Rightarrow> False
                  | RefineAndOptimize t ct cs \<Rightarrow> ct = content a \<and> cs = citations a
                  | SaveArticle a' \<Rightarrow> art_id a' = art_id a \<and> outline a' = outline a
                                       \<and> citations a' = citations a
                  | _ \<Rightarrow> True"
    using 2 by blast
  have inner: "\<exists>topic a. loadTopic ld topicId version = Inr topic \<and> articles w articleId = Some a
            \<and> (\<forall>e\<in>set (new_events w1 wz).
                  case e of
                    StageFn r n \<Rightarrow> r = runId \<and> (n = Refine \<or> n = Export)
                  | ConductResearch t \<Rightarrow> False
                  | GenerateOutline t rr \<Rightarrow> False
                  | GenerateDraft t ol rr \<Rightarrow> False
                  | RefineAndOptimize t ct cs \<Rightarrow> ct = content a \<and> cs = citations a
                  | SaveArticle a' \<Rightarrow> art_id a' = art_id a \<and> outline a' = outline a
                                       \<and> citations a' = citations a
                  | _ \<Rightarrow> True)
            \<and> StageFn runId Refine \<in> set (new_events w1 wz)
            \<and> RefineAndOptimize topic (content a) (citations a) \<in> set (new_events w1 wz)
            \<and> (\<forall>d rc sm.
                  refineAndOptimize co topic (content a) (citations a) = Settles d (Inr (rc, sm))
                  \<and> d \<le> timer env \<longrightarrow>
                    stage_status runId wz Refine = Some Completed
                    \<and> StageFn runId Export \<in> set (new_events w1 wz)
                    \<and> (\<exists>t. SaveArticle (a\<lparr>content := rc, seo := sm, art_updated_at := Some t\<rparr>)
                             \<in> set (new_events w1 wz))
                    \<and> ((\<forall>w'. in_time (timer env)
                               (fst (regen_export_fn co topic (a\<lparr>content := rc, seo := sm\<rparr>) w')))
                         \<longrightarrow> p = Fulfilled))"
    using topic a 6 tr(1) tr(2) 5 by (intro exI[of _ topic] exI[of _ a] conjI)
  from 1 have first: "\<forall>n. stage_status runId w1 n
               = Some (if n = Refine \<or> n = Export then Pending else Cancelled)" by blast
  from 3 have third: "p = Fulfilled
            \<longrightarrow> StageFn runId Refine \<in> set (new_events w1 wz)
              \<and> StageFn runId Export \<in> set (new_events w1 wz)
              \<and> (\<forall>n. stage_status runId wz n
                        = Some (if n = Refine \<or> n = Export then Completed else Cancelled))" by blast
  from 4 have fourth: "(\<forall>n. stage_status runId wz n \<noteq> Some Failed) \<longrightarrow> p = Fulfilled" by blast
  show ?thesis
    unfolding p_def[symmetric] wz_def[symmetric]
    by (intro conjI; fact first inner third fourth)
qed

text \<open>
  The regeneration of the stored article with collaborators that return after 10 ms,
  against the default timer: the refine agent is called on the old content and
  citations, the article saved has the refined content and the old outline, and the
  promise is fulfilled with refine and export completed.
\<close>

theorem regeneration_defaults_to_refine_and_export_witness:
  "regenerateArticle default_config good_agents demo_loader ''r2'' ''a0'' ''t1'' ''1.0.0''
       None library_world = (Inr regen_handle, snd regen_start)
   \<and> loadTopic demo_loader ''t1'' ''1.0.0'' = Inr demo_topic
   \<and> articles library_world ''a0'' = Some existing_article
   \<and> refineAndOptimize good_agents demo_topic (content existing_article) (citations existing_article)
        = Settles 10 (Inr (''refined'', ''seo''))
   \<and> 10 \<le> timer default_config
   \<and> (\<forall>w'. in_time (timer default_config)
              (fst (regen_export_fn good_agents demo_topic
                      (existing_article\<lparr>content := ''refined'', seo := ''seo''\<rparr>) w')))
   \<and> stage_status ''r2'' (snd regen_start) Draft = Some Cancelled
   \<and> stage_status ''r2'' (snd regen_start) Refine = Some Pending
   \<and> (\<forall>t. ConductResearch t \<notin> set (new_events (snd regen_start) regen_final))
   \<and> StageFn ''r2'' Refine \<in> set (new_events (snd regen_start) regen_final)
   \<and> RefineAndOptimize demo_topic ''old content'' [''c0'']
        \<in> set (new_events (snd regen_start) regen_final)
   \<and> StageFn ''r2'' Export \<in> set (new_events (snd regen_start) regen_final)
   \<and> (\<exists>t. SaveArticle (existing_article\<lparr>content := ''refined'', seo := ''seo'',
                                          art_updated_at := Some t\<rparr>)
            \<in> set (new_events (snd regen_start) regen_final))
   \<and> fst (generationPromise regen_handle) = Fulfilled
   \<and> stage_status ''r2'' regen_final Refine = Some Completed
   \<and> stage_status ''r2'' regen_final Export = Some Completed"
proof -
  note t = regeneration_defaults_to_refine_and_export[OF regen_started, folded regen_final_def]
  have tm: "timer default_config = 300000"
    by (simp add: stage_timeout_def setTimeout_delay_def default_config_def)
  have le: "10 \<le> timer default_config" by (simp add: tm)
  have art: "articles library_world ''a0'' = Some existing_article"
    by (simp add: library_world_def)
  have b: "refineAndOptimize good_agents demo_topic (content existing_article)
             (citations existing_article) = Settles 10 (Inr (''refined'', ''seo''))"
    by (simp add: good_agents_def)
  have x: "\<forall>w'. in_time (timer default_config)
              (fst (regen_export_fn good_agents demo_topic
                      (existing_article\<lparr>content := ''refined'', seo := ''seo''\<rparr>) w'))"
    by (simp add: tm in_time_def good_agents_def regen_export_fn_def Let_def demo_topic_def)
  from t have a: "stage_status ''r2'' (snd regen_start) Draft = Some Cancelled"
    "stage_status ''r2'' (snd regen_start) Refine = Some Pending" by simp_all
  from t obtain topic a where
    topic: "loadTopic demo_loader ''t1'' ''1.0.0'' = Inr topic"
    and a0: "articles library_world ''a0'' = Some a"
    and only: "\<forall>e\<in>set (new_events (snd regen_start) regen_final).
                  case e of
                    StageFn r n \<Rightarrow> r = ''r2'' \<and> (n = Refine \<or> n = Export)
                  | ConductResearch t \<Rightarrow> False
                  | GenerateOutline t rr \<Rightarrow> False
                  | GenerateDraft t ol rr \<Rightarrow> False
                  | RefineAndOptimize t ct cs \<Rightarrow> ct = content a \<and> cs = citations a
                  | SaveArticle a' \<Rightarrow> art_id a' = art_id a \<and> outline a' = outline a
                                       \<and> citations a' = citations a
                  | _ \<Rightarrow> True"
    and rf: "StageFn ''r2'' Refine \<in> set (new_events (snd regen_start) regen_final)"
    and ag: "RefineAndOptimize topic (content a) (citations a)
               \<in> set (new_events (snd regen_start) regen_final)"
    and more: "\<forall>d rc sm.
                  refineAndOptimize good_agents topic (content a) (citations a)
                    = Settles d (Inr (rc, sm))
                  \<and> d \<le> timer default_config \<longrightarrow>
                    stage_status ''r2'' regen_final Refine = Some Completed
                    \<and> StageFn ''r2'' Export \<in> set (new_events (snd regen_start) regen_final)
                    \<and> (\<exists>t. SaveArticle (a\<lparr>content := rc, seo := sm, art_updated_at := Some t\<rparr>)
                             \<in> set (new_events (snd regen_start) regen_final))
                    \<and> ((\<forall>w'. in_time (timer default_config)
                               (fst (regen_export_fn good_agents topic
                                       (a\<lparr>content := rc, seo := sm\<rparr>) w')))
                         \<longrightarrow> fst (generationPromise regen_handle) = Fulfilled)"
    by blast
  from topic load_demo have tp: "topic = demo_topic" by simp
  from a0 art have ae: "a = existing_article" by simp
  have nr: "\<forall>t. ConductResearch t \<notin> set (new_events (snd regen_start) regen_final)"
  proof (intro allI notI)
    fix t
    assume "ConductResearch t \<in> set (new_events (snd regen_start) regen_final)"
    from bspec[OF only this] show False by simp
  qed
  from ag have ag': "RefineAndOptimize demo_topic ''old content'' [''c0'']
        \<in> set (new_events (snd regen_start) regen_final)"
    by (simp add: tp ae existing_article_def)
  from more[unfolded tp ae] b le x have m:
    "stage_status ''r2'' regen_final Refine = Some Completed"
    "StageFn ''r2'' Export \<in> set (new_events (snd regen_start) regen_final)"
    "\<exists>t. SaveArticle (existing_article\<lparr>content := ''refined'', seo := ''seo'',
                                        art_updated_at := Some t\<rparr>)
            \<in> set (new_events (snd regen_start) regen_final)"
    "fst (generationPromise regen_handle) = Fulfilled"
    by blast+
  from t m(4) have ex: "stage_status ''r2'' regen_final Export = Some Completed" by simp
  from regen_started load_demo art b le x a nr rf ag' m ex show ?thesis by blast
qed

end
